theory Spec2Isabelle
  imports Main "HOL-Library.Word"
begin

unbundle bit_operations_syntax

section \<open>Strings and the UTF-8 byte length (utils/stringByteLength.js)\<close>

text \<open>
  A JavaScript string is a sequence of 16-bit code units. \<open>charCodeAt\<close> returns the
  unit at an index, and NaN (here \<open>None\<close>) outside the string; every comparison with NaN
  is false.
\<close>

type_synonym jsstring = "16 word list"

definition charCodeAt :: "jsstring \<Rightarrow> int \<Rightarrow> nat option" where
  "charCodeAt str i =
     (if 0 \<le> i \<and> nat i < length str then Some (unat (str ! nat i)) else None)"

text \<open>
  The range tests of the loop. A code unit is an integer, so \<open>code > 0x7f\<close> is
  \<open>0x80 <= code\<close> and \<open>code > 0x7ff\<close> is \<open>0x800 <= code\<close>.
\<close>

definition code_in :: "nat option \<Rightarrow> nat \<Rightarrow> nat \<Rightarrow> bool" where
  "code_in code lo hi = (case code of None \<Rightarrow> False | Some c \<Rightarrow> lo \<le> c \<and> c \<le> hi)"

text \<open>
  The loop of \<open>stringByteLength\<close>: \<open>i\<close> runs down from \<open>str.length - 1\<close> while
  \<open>i >= 0\<close>; the counter \<open>s\<close> starts at \<open>str.length\<close>. A trail surrogate decrements
  \<open>i\<close> once more, so the unit before it is not visited.
\<close>

function sbl_loop :: "jsstring \<Rightarrow> int \<Rightarrow> nat \<Rightarrow> nat" where
  "sbl_loop str i s =
     (if 0 \<le> i then
        (let code = charCodeAt str i;
             s1 = (if code_in code 0x80 0x7ff then s + 1
                   else if code_in code 0x800 0xffff then s + 2
                   else s);
             i1 = (if code_in code 0xDC00 0xDFFF then i - 1 else i)
         in sbl_loop str (i1 - 1) s1)
      else s)"
  by pat_completeness auto
termination
  by (relation "measure (\<lambda>(str, i, s). nat (i + 1))") auto

declare sbl_loop.simps [simp del]

definition stringByteLength :: "jsstring \<Rightarrow> nat" where
  "stringByteLength str = sbl_loop str (int (length str) - 1) (length str)"

subsection \<open>The UTF-8 encoding written by the buffer\<close>

definition is_high :: "16 word \<Rightarrow> bool" where
  "is_high c = (0xD800 \<le> unat c \<and> unat c \<le> 0xDBFF)"

definition is_low :: "16 word \<Rightarrow> bool" where
  "is_low c = (0xDC00 \<le> unat c \<and> unat c \<le> 0xDFFF)"

text \<open>
  The bytes of one code unit that is not part of a surrogate pair. A surrogate on its own
  has no UTF-8 form; the buffer writes the three bytes of U+FFFD for it.
\<close>

definition utf8_unit :: "16 word \<Rightarrow> nat list" where
  "utf8_unit c =
     (let n = unat c in
      if n < 0x80 then [n]
      else if n < 0x800 then [0xC0 + n div 64, 0x80 + n mod 64]
      else if is_high c \<or> is_low c then [0xEF, 0xBF, 0xBD]
      else [0xE0 + n div 4096, 0x80 + (n div 64) mod 64, 0x80 + n mod 64])"

text \<open>The four bytes of the code point above U+FFFF that a surrogate pair stands for.\<close>

definition pair_code_point :: "16 word \<Rightarrow> 16 word \<Rightarrow> nat" where
  "pair_code_point h l = 0x10000 + (unat h - 0xD800) * 1024 + (unat l - 0xDC00)"

definition utf8_pair :: "16 word \<Rightarrow> 16 word \<Rightarrow> nat list" where
  "utf8_pair h l =
     (let cp = pair_code_point h l in
      [0xF0 + cp div 262144, 0x80 + (cp div 4096) mod 64,
       0x80 + (cp div 64) mod 64, 0x80 + cp mod 64])"

text \<open>One chunk of bytes per code point, in order.\<close>

fun utf8_chunks :: "jsstring \<Rightarrow> nat list list" where
  "utf8_chunks [] = []"
| "utf8_chunks [c] = [utf8_unit c]"
| "utf8_chunks (c # d # cs) =
     (if is_high c \<and> is_low d then utf8_pair c d # utf8_chunks cs
      else utf8_unit c # utf8_chunks (d # cs))"

definition utf8_encode :: "jsstring \<Rightarrow> 8 word list" where
  "utf8_encode str = map of_nat (concat (utf8_chunks str))"

text \<open>
  Every trail (low) surrogate of the string directly follows the lead (high) surrogate
  it forms a pair with. Well-formed UTF-16 text satisfies this.
\<close>

fun trails_paired :: "jsstring \<Rightarrow> bool" where
  "trails_paired [] = True"
| "trails_paired [c] = (\<not> is_low c)"
| "trails_paired (c # d # cs) =
     (if is_high c \<and> is_low d then trails_paired cs
      else \<not> is_low c \<and> trails_paired (d # cs))"

section \<open>JavaScript values\<close>

subsection \<open>Numbers\<close>

text \<open>
  A JavaScript number is an IEEE-754 double, kept here as its 64 bits: sign (bit 63),
  biased exponent (11 bits) and fraction (52 bits). \<open>writeDoubleBE\<close> stores exactly
  these bits.
\<close>

type_synonym double = "64 word"

definition dbl_sign :: "double \<Rightarrow> bool" where
  "dbl_sign d = (unat d div 2 ^ 63 = 1)"

definition dbl_exp :: "double \<Rightarrow> nat" where
  "dbl_exp d = (unat d div 2 ^ 52) mod 2048"

definition dbl_frac :: "double \<Rightarrow> nat" where
  "dbl_frac d = unat d mod 2 ^ 52"

definition dbl_isNaN :: "double \<Rightarrow> bool" where
  "dbl_isNaN d = (dbl_exp d = 2047 \<and> dbl_frac d \<noteq> 0)"

text \<open>
  The absolute value of a double times \<open>2 ^ 1075\<close>, which is a natural number: a normal
  double is \<open>(2 ^ 52 + frac) * 2 ^ (exp - 1075)\<close>, a subnormal one is
  \<open>frac * 2 ^ - 1074\<close>. The infinities (exponent 2047, fraction 0) come out above every
  finite double, so the order of the scaled values is the order of the numbers.
\<close>

definition dbl_mag :: "double \<Rightarrow> nat" where
  "dbl_mag d =
     (if dbl_exp d = 0 then 2 * dbl_frac d else (2 ^ 52 + dbl_frac d) * 2 ^ dbl_exp d)"

definition dbl_scaled :: "double \<Rightarrow> int" where
  "dbl_scaled d = (if dbl_sign d then - int (dbl_mag d) else int (dbl_mag d))"

text \<open>The comparison \<open>a > b\<close> of two numbers: false when either is NaN.\<close>

definition dbl_gt :: "double \<Rightarrow> double \<Rightarrow> bool" where
  "dbl_gt a b = (\<not> dbl_isNaN a \<and> \<not> dbl_isNaN b \<and> dbl_scaled b < dbl_scaled a)"

text \<open>The integer a double is equal to, when it is finite and has no fractional part.\<close>

definition dbl_int :: "double \<Rightarrow> int option" where
  "dbl_int d =
     (if dbl_exp d = 2047 then None
      else if dbl_mag d mod 2 ^ 1075 = 0 then Some (dbl_scaled d div 2 ^ 1075)
      else None)"

text \<open>ToInt32: truncate towards zero, NaN and the infinities give 0, then wrap to 32 bits.\<close>

definition ToInt32 :: "double \<Rightarrow> 32 word" where
  "ToInt32 d =
     (if dbl_exp d = 2047 then 0
      else if dbl_sign d then word_of_int (- int (dbl_mag d div 2 ^ 1075))
      else word_of_int (int (dbl_mag d div 2 ^ 1075)))"

subsection \<open>Primitive values\<close>

text \<open>
  The arguments of the constructor and of the setters range over the primitive values.
  Objects are outside this model.
\<close>

datatype jsval = JUndefined | JNull | JBoolean bool | JNumber double | JString jsstring

datatype jstype = TUndefined | TObject | TBoolean | TNumber | TString

fun typeof :: "jsval \<Rightarrow> jstype" where
  "typeof JUndefined = TUndefined"
| "typeof JNull = TObject"
| "typeof (JBoolean b) = TBoolean"
| "typeof (JNumber d) = TNumber"
| "typeof (JString s) = TString"

text \<open>Strict equality \<open>===\<close>: NaN equals nothing, and the two zeros are equal.\<close>

fun strict_eq :: "jsval \<Rightarrow> jsval \<Rightarrow> bool" where
  "strict_eq (JNumber a) (JNumber b) =
     (\<not> dbl_isNaN a \<and> \<not> dbl_isNaN b \<and> dbl_scaled a = dbl_scaled b)"
| "strict_eq x y = (x = y)"

text \<open>
  Three kinds of failure: \<open>Error\<close> is what this module throws itself
  (\<open>throw new Error (...)\<close>), \<open>TypeError\<close> is raised by the language when a property of
  \<open>undefined\<close> or \<open>null\<close> is read, \<open>RangeError\<close> is raised by the platform's Buffer
  for a value or an offset out of bounds.
\<close>

datatype error = Error | TypeError | RangeError

text \<open>
  What the platform decides and this module does not: the conversion of a string to a
  number (ToNumber, used when a string is compared with a number), the content of a
  freshly allocated buffer (\<open>new Buffer (n)\<close> does not promise zeros), and what
  \<open>writeUInt32BE\<close> does with a number in range that is NaN or has a fractional part
  (early versions of the platform throw, later ones truncate).
\<close>

datatype fraction_policy = Throws | Truncates

record platform =
  StringToNumber :: "jsstring \<Rightarrow> double"
  fresh_memory :: "nat \<Rightarrow> 8 word"
  uint_fraction :: fraction_policy

definition dbl_NaN :: double where
  "dbl_NaN = 0x7FF8000000000000"

fun ToNumber :: "platform \<Rightarrow> jsval \<Rightarrow> double" where
  "ToNumber P JUndefined = dbl_NaN"
| "ToNumber P JNull = 0"
| "ToNumber P (JBoolean b) = (if b then 0x3FF0000000000000 else 0)"
| "ToNumber P (JNumber d) = d"
| "ToNumber P (JString s) = StringToNumber P s"

section \<open>The enum validator (utils/validateEnumValue.js)\<close>

text \<open>
  The loop visits every enumerable property of the enum object and keeps a flag; it does
  not stop at the first match. The enum is given by the list of its property values.
\<close>

fun validate_loop :: "jsval \<Rightarrow> jsval list \<Rightarrow> bool \<Rightarrow> bool" where
  "validate_loop v [] isValid = isValid"
| "validate_loop v (x # xs) isValid =
     validate_loop v xs (if strict_eq v x then True else isValid)"

definition validateEnumValue :: "jsval \<Rightarrow> jsval list \<Rightarrow> bool" where
  "validateEnumValue v enumToCheck = validate_loop v enumToCheck False"

text \<open>
  The external module \<open>ed-temporal-granularity\<close>: the primitive values of its
  enumerable properties (the granularity codes), and its \<open>properties\<close> table, which
  maps a code to an entry with a name. The \<open>properties\<close> member itself is an object, so
  it is strictly equal to no primitive value and the validator passes over it.
\<close>

record granularity_entry =
  name :: jsstring

record granularity =
  enum_values :: "jsval list"
  properties :: "nat \<Rightarrow> granularity_entry option"

section \<open>The platform's Buffer\<close>

text \<open>A buffer is a byte sequence of fixed length.\<close>

type_synonym bytes = "8 word list"

definition new_Buffer :: "platform \<Rightarrow> nat \<Rightarrow> bytes" where
  "new_Buffer P n = map (fresh_memory P) [0..<n]"

definition write_bytes :: "bytes \<Rightarrow> nat \<Rightarrow> bytes \<Rightarrow> bytes" where
  "write_bytes buf off bs = take off buf @ bs @ drop (off + length bs) buf"

text \<open>Big-endian bytes of a value, and the value of big-endian bytes.\<close>

fun be_bytes :: "nat \<Rightarrow> nat \<Rightarrow> bytes" where
  "be_bytes 0 v = []"
| "be_bytes (Suc n) v = be_bytes n (v div 256) @ [of_nat (v mod 256)]"

definition be_value :: "bytes \<Rightarrow> nat" where
  "be_value bs = foldl (\<lambda>acc b. acc * 256 + unat b) 0 bs"

definition writeUInt16BE :: "bytes \<Rightarrow> nat \<Rightarrow> nat \<Rightarrow> error + bytes" where
  "writeUInt16BE buf v off =
     (if 0xFFFF < v \<or> length buf < off + 2 then Inl RangeError
      else Inr (write_bytes buf off (be_bytes 2 v)))"

definition readUInt16BE :: "bytes \<Rightarrow> nat \<Rightarrow> error + nat" where
  "readUInt16BE buf off =
     (if length buf < off + 2 then Inl RangeError
      else Inr (be_value (take 2 (drop off buf))))"

text \<open>
  The unsigned 32-bit integer that \<open>writeUInt32BE\<close> stores for a number, or \<open>None\<close>
  when it throws: an integer is stored when it lies in \<open>[0, 2^32 - 1]\<close>; anything else
  below 0 or above \<open>2^32 - 1\<close> is out of bounds; NaN and fractional numbers in range follow
  the platform's policy.
\<close>

definition uint32_of :: "platform \<Rightarrow> double \<Rightarrow> nat option" where
  "uint32_of P d =
     (case dbl_int d of
        Some k \<Rightarrow> if 0 \<le> k \<and> k \<le> 0xFFFFFFFF then Some (nat k) else None
      | None \<Rightarrow>
          (case uint_fraction P of
             Throws \<Rightarrow> None
           | Truncates \<Rightarrow>
               if dbl_isNaN d then Some 0
               else if dbl_scaled d < 0 \<or> 0xFFFFFFFF * 2 ^ 1075 < dbl_scaled d then None
               else Some (dbl_mag d div 2 ^ 1075)))"

definition writeUInt32BE :: "platform \<Rightarrow> bytes \<Rightarrow> double \<Rightarrow> nat \<Rightarrow> error + bytes" where
  "writeUInt32BE P buf d off =
     (case uint32_of P d of
        None \<Rightarrow> Inl RangeError
      | Some v \<Rightarrow>
          if length buf < off + 4 then Inl RangeError
          else Inr (write_bytes buf off (be_bytes 4 v)))"

definition readUInt32BE :: "bytes \<Rightarrow> nat \<Rightarrow> error + nat" where
  "readUInt32BE buf off =
     (if length buf < off + 4 then Inl RangeError
      else Inr (be_value (take 4 (drop off buf))))"

definition writeDoubleBE :: "bytes \<Rightarrow> double \<Rightarrow> nat \<Rightarrow> error + bytes" where
  "writeDoubleBE buf d off =
     (if length buf < off + 8 then Inl RangeError
      else Inr (write_bytes buf off (be_bytes 8 (unat d))))"

definition readDoubleBE :: "bytes \<Rightarrow> nat \<Rightarrow> error + double" where
  "readDoubleBE buf off =
     (if length buf < off + 8 then Inl RangeError
      else Inr (of_nat (be_value (take 8 (drop off buf)))))"

text \<open>
  \<open>buffer.write (string, offset)\<close>: the UTF-8 bytes of the string, code point by code
  point, for as long as a whole code point fits before the end of the buffer.
\<close>

fun fit_chunks :: "nat \<Rightarrow> nat list list \<Rightarrow> nat list" where
  "fit_chunks room [] = []"
| "fit_chunks room (c # cs) =
     (if length c \<le> room then c @ fit_chunks (room - length c) cs else [])"

definition buffer_write :: "bytes \<Rightarrow> jsstring \<Rightarrow> nat \<Rightarrow> bytes" where
  "buffer_write buf str off =
     write_bytes buf off (map of_nat (fit_chunks (length buf - off) (utf8_chunks str)))"

text \<open>
  The UTF-8 decoder behind \<open>buffer.toString ('utf8', start, end)\<close>, as a state machine
  over the bytes: the code point so far, the number of continuation bytes still needed
  and the bounds of the next one. A malformed sequence gives U+FFFD, and the offending
  byte is read again as the start of a sequence. Code points above U+FFFF become a
  surrogate pair.
\<close>

definition units_of_code_point :: "nat \<Rightarrow> jsstring" where
  "units_of_code_point cp =
     (if cp < 0x10000 then [of_nat cp]
      else [of_nat (0xD800 + (cp - 0x10000) div 1024),
            of_nat (0xDC00 + (cp - 0x10000) mod 1024)])"

function utf8_dec :: "nat \<Rightarrow> nat \<Rightarrow> nat \<Rightarrow> nat \<Rightarrow> nat list \<Rightarrow> jsstring" where
  "utf8_dec cp needed lo hi [] = (if needed = 0 then [] else [0xFFFD])"
| "utf8_dec cp needed lo hi (b # bs) =
     (if needed = 0 then
        (if b < 0x80 then of_nat b # utf8_dec 0 0 0x80 0xBF bs
         else if 0xC2 \<le> b \<and> b \<le> 0xDF then utf8_dec (b - 0xC0) 1 0x80 0xBF bs
         else if 0xE0 \<le> b \<and> b \<le> 0xEF then
           utf8_dec (b - 0xE0) 2 (if b = 0xE0 then 0xA0 else 0x80)
             (if b = 0xED then 0x9F else 0xBF) bs
         else if 0xF0 \<le> b \<and> b \<le> 0xF4 then
           utf8_dec (b - 0xF0) 3 (if b = 0xF0 then 0x90 else 0x80)
             (if b = 0xF4 then 0x8F else 0xBF) bs
         else 0xFFFD # utf8_dec 0 0 0x80 0xBF bs)
      else if b < lo \<or> hi < b then 0xFFFD # utf8_dec 0 0 0x80 0xBF (b # bs)
      else if needed = 1 then
        units_of_code_point (cp * 64 + (b - 0x80)) @ utf8_dec 0 0 0x80 0xBF bs
      else utf8_dec (cp * 64 + (b - 0x80)) (needed - 1) 0x80 0xBF bs)"
  by pat_completeness auto
termination
  by (relation "measure (\<lambda>(cp, needed, lo, hi, bs). 2 * length bs + (if needed = 0 then 0 else 1))")
     auto

declare utf8_dec.simps(2) [simp del]

definition utf8_decode :: "bytes \<Rightarrow> jsstring" where
  "utf8_decode bs = utf8_dec 0 0 0x80 0xBF (map unat bs)"

definition buffer_toString :: "bytes \<Rightarrow> nat \<Rightarrow> nat \<Rightarrow> jsstring" where
  "buffer_toString buf start fin =
     utf8_decode (take (min fin (length buf) - start) (drop start buf))"

section \<open>The header (header.js)\<close>

record header =
  FIXED_HEADER_SIZE :: nat
  buffer :: bytes

text \<open>The n-th argument of a call: \<open>undefined\<close> when the call has fewer arguments.\<close>

definition argument :: "jsval list \<Rightarrow> nat \<Rightarrow> jsval" where
  "argument arguments n = (if n < length arguments then arguments ! n else JUndefined)"

text \<open>
  \<open>stringByteLength\<close> applied to an arbitrary value: reading \<open>.length\<close> of
  \<open>undefined\<close> or \<open>null\<close> raises a TypeError; a boolean or a number has no
  \<open>length\<close>, the loop does not run and the result is \<open>undefined\<close> (here \<open>None\<close>).
\<close>

fun stringByteLength_of :: "jsval \<Rightarrow> error + nat option" where
  "stringByteLength_of (JString str) = Inr (Some (stringByteLength str))"
| "stringByteLength_of JUndefined = Inl TypeError"
| "stringByteLength_of JNull = Inl TypeError"
| "stringByteLength_of v = Inr None"

text \<open>
  The condition of line 73,
  \<open>typeof eventType != 'string' && (eventType.length === 0) || eventType > (65535 - 47)\<close>.
  \<open>&&\<close> binds tighter than \<open>||\<close>. \<open>eventType.length\<close> is read only when
  \<open>eventType\<close> is not a string: it raises a TypeError on \<open>undefined\<close> and \<open>null\<close>,
  and is \<open>undefined\<close> on a boolean or a number. The comparison with the number 65488
  converts \<open>eventType\<close> to a number.
\<close>

definition dbl_65488 :: double where
  "dbl_65488 = 0x40EFFA0000000000"

fun length_is_0 :: "jsval \<Rightarrow> error + bool" where
  "length_is_0 JUndefined = Inl TypeError"
| "length_is_0 JNull = Inl TypeError"
| "length_is_0 (JString str) = Inr (length str = 0)"
| "length_is_0 v = Inr False"

definition eventType_rejected :: "platform \<Rightarrow> jsval \<Rightarrow> error + bool" where
  "eventType_rejected P eventType =
     (if typeof eventType \<noteq> TString then
        (case length_is_0 eventType of
           Inl e \<Rightarrow> Inl e
         | Inr z \<Rightarrow> Inr (z \<or> dbl_gt (ToNumber P eventType) dbl_65488))
      else Inr (dbl_gt (ToNumber P eventType) dbl_65488))"

text \<open>
  Lines 73 to 86: allocate the buffer, store the protocol version in byte 0, the buffer
  length at offset 1 and the event type at offset 47. For a boolean or a number that
  passes the condition, \<open>stringByteLength\<close> is \<open>undefined\<close> and the size is NaN: no
  buffer of 47 bytes exists and the write at offset 1 (or the allocation itself) fails.
\<close>

definition eventType_stage :: "platform \<Rightarrow> jsval \<Rightarrow> error + bytes" where
  "eventType_stage P eventType =
     (case eventType_rejected P eventType of
        Inl e \<Rightarrow> Inl e
      | Inr True \<Rightarrow> Inl Error
      | Inr False \<Rightarrow>
          (case eventType of
             JString str \<Rightarrow>
               (let b0 = new_Buffer P (47 + stringByteLength str);
                    b1 = b0[0 := 1]
                in case writeUInt16BE b1 (length b1) 1 of
                     Inl e \<Rightarrow> Inl e
                   | Inr b2 \<Rightarrow> Inr (buffer_write b2 str 47))
           | _ \<Rightarrow> Inl RangeError))"

text \<open>
  Lines 89 to 94: \<open>_buffer[0] |= (temporalGranularity << 4)\<close>. The shift works on
  ToInt32 of the value, the result of the OR is stored as a byte.
\<close>

definition granularity_stage ::
  "platform \<Rightarrow> granularity \<Rightarrow> jsval \<Rightarrow> bytes \<Rightarrow> error + bytes" where
  "granularity_stage P G temporalGranularity buf =
     (if \<not> validateEnumValue temporalGranularity (enum_values G) then Inl Error
      else Inr (buf[0 := ucast ((ucast (buf ! 0) :: 32 word) OR
                                push_bit 4 (ToInt32 (ToNumber P temporalGranularity)))]))"

text \<open>
  The \<open>throw\<close> statements of the eventSource check and of \<open>setEventId\<close> build their
  message with a call of \<open>stringByteLength\<close> on the rejected value; on \<open>undefined\<close>
  and \<open>null\<close> that call raises a TypeError before the Error is thrown.
\<close>

definition bad_text_error :: "jsval \<Rightarrow> error" where
  "bad_text_error v = (case stringByteLength_of v of Inl e \<Rightarrow> e | Inr n \<Rightarrow> Error)"

definition eventSource_stage :: "jsval \<Rightarrow> bytes \<Rightarrow> error + bytes" where
  "eventSource_stage eventSource buf =
     (case eventSource of
        JString str \<Rightarrow>
          if stringByteLength str \<noteq> 12 then Inl (bad_text_error eventSource)
          else Inr (buffer_write buf str 35)
      | _ \<Rightarrow> Inl (bad_text_error eventSource))"

text \<open>
  \<open>this.buffer[0]\<close>: an index outside the buffer reads \<open>undefined\<close>, which the bit
  operators take as 0, and a store outside the buffer has no effect.
\<close>

definition byte0 :: "bytes \<Rightarrow> 8 word" where
  "byte0 buf = (case buf of [] \<Rightarrow> 0 | b # bs \<Rightarrow> b)"

definition flip_composed :: "bytes \<Rightarrow> bytes" where
  "flip_composed buf = (case buf of [] \<Rightarrow> [] | b # bs \<Rightarrow> (b XOR 8) # bs)"

text \<open>Lines 105 to 110: a fourth argument that is not a boolean is ignored.\<close>

definition isComposed_stage :: "jsval list \<Rightarrow> jsval \<Rightarrow> bytes \<Rightarrow> bytes" where
  "isComposed_stage arguments isComposed buf =
     (case isComposed of
        JBoolean c \<Rightarrow>
          if length arguments = 4 \<and> (\<not> (byte0 buf AND 8 \<noteq> 0)) = c then flip_composed buf
          else buf
      | _ \<Rightarrow> buf)"

text \<open>The constructor, called with \<open>new\<close>.\<close>

definition Header_new :: "platform \<Rightarrow> granularity \<Rightarrow> jsval list \<Rightarrow> error + header" where
  "Header_new P G arguments =
     (let eventType = argument arguments 0;
          temporalGranularity = argument arguments 1;
          eventSource = argument arguments 2;
          isComposed = argument arguments 3
      in if length arguments < 3 \<or> 4 < length arguments then Inl Error
         else case eventType_stage P eventType of
                Inl e \<Rightarrow> Inl e
              | Inr b1 \<Rightarrow>
                  (case granularity_stage P G temporalGranularity b1 of
                     Inl e \<Rightarrow> Inl e
                   | Inr b2 \<Rightarrow>
                       (case eventSource_stage eventSource b2 of
                          Inl e \<Rightarrow> Inl e
                        | Inr b3 \<Rightarrow>
                            Inr \<lparr>FIXED_HEADER_SIZE = 47,
                                 buffer = isComposed_stage arguments isComposed b3\<rparr>)))"

text \<open>
  The constructor called as a plain function: \<open>this\<close> is not a Header, and line 47
  returns \<open>new Header (eventType, temporalGranularity, eventSource, isComposed)\<close>, a call
  with exactly four arguments.
\<close>

definition Header_call :: "platform \<Rightarrow> granularity \<Rightarrow> jsval list \<Rightarrow> error + header" where
  "Header_call P G arguments =
     Header_new P G [argument arguments 0, argument arguments 1,
                     argument arguments 2, argument arguments 3]"

subsection \<open>Accessors and mutators\<close>

definition getProtocolVersion :: "header \<Rightarrow> nat" where
  "getProtocolVersion h = unat (byte0 (buffer h) AND 7)"

definition getHeaderLength :: "header \<Rightarrow> error + nat" where
  "getHeaderLength h = readUInt16BE (buffer h) 1"

definition getPayloadLength :: "header \<Rightarrow> error + nat" where
  "getPayloadLength h = readUInt32BE (buffer h) 3"

definition dbl_4294967295 :: double where
  "dbl_4294967295 = 0x41EFFFFFFFE00000"

definition setPayloadLength :: "platform \<Rightarrow> header \<Rightarrow> jsval \<Rightarrow> error + header" where
  "setPayloadLength P h payloadLength =
     (case payloadLength of
        JNumber d \<Rightarrow>
          if dbl_gt d dbl_4294967295 then Inl Error
          else (case writeUInt32BE P (buffer h) d 3 of
                  Inl e \<Rightarrow> Inl e
                | Inr b \<Rightarrow> Inr (h\<lparr>buffer := b\<rparr>))
      | _ \<Rightarrow> Inl Error)"

definition getTemporalGranularity :: "header \<Rightarrow> nat" where
  "getTemporalGranularity h = unat (drop_bit 4 (byte0 (buffer h)))"


definition isComposed :: "header \<Rightarrow> bool" where
  "isComposed h = (byte0 (buffer h) AND 8 \<noteq> 0)"

definition setComposed :: "header \<Rightarrow> jsval \<Rightarrow> error + header" where
  "setComposed h composed =
     (case composed of
        JBoolean c \<Rightarrow>
          if (\<not> (byte0 (buffer h) AND 8 \<noteq> 0)) = c
          then Inr (h\<lparr>buffer := flip_composed (buffer h)\<rparr>)
          else Inr h
      | _ \<Rightarrow> Inl Error)"

definition getEventType :: "header \<Rightarrow> error + jsstring" where
  "getEventType h =
     (case getHeaderLength h of
        Inl e \<Rightarrow> Inl e
      | Inr n \<Rightarrow> Inr (buffer_toString (buffer h) (FIXED_HEADER_SIZE h) n))"

text \<open>
  The bound of the two time setters is the value of the expression \<open>2E+63 - 1\<close>. The
  literal \<open>2E+63\<close> is two times ten to the power 63, as a double
  2000000000000000115715919885453939654786757378350080876345294848; subtracting 1 from a
  double of that size gives the same double back.
\<close>

definition dbl_2E63_minus_1 :: double where
  "dbl_2E63_minus_1 = 0x4D13726987666191"

definition getOccurrenceTime :: "header \<Rightarrow> error + double" where
  "getOccurrenceTime h = readDoubleBE (buffer h) 7"

definition setOccurrenceTime :: "header \<Rightarrow> jsval \<Rightarrow> error + header" where
  "setOccurrenceTime h occurrenceTime =
     (case occurrenceTime of
        JNumber d \<Rightarrow>
          if dbl_gt d dbl_2E63_minus_1 then Inl Error
          else (case writeDoubleBE (buffer h) d 7 of
                  Inl e \<Rightarrow> Inl e
                | Inr b \<Rightarrow> Inr (h\<lparr>buffer := b\<rparr>))
      | _ \<Rightarrow> Inl Error)"

definition getDetectionTime :: "header \<Rightarrow> error + double" where
  "getDetectionTime h = readDoubleBE (buffer h) 15"

definition setDetectionTime :: "header \<Rightarrow> jsval \<Rightarrow> error + header" where
  "setDetectionTime h detectionTime =
     (case detectionTime of
        JNumber d \<Rightarrow>
          if dbl_gt d dbl_2E63_minus_1 then Inl Error
          else (case writeDoubleBE (buffer h) d 15 of
                  Inl e \<Rightarrow> Inl e
                | Inr b \<Rightarrow> Inr (h\<lparr>buffer := b\<rparr>))
      | _ \<Rightarrow> Inl Error)"



definition getEventSource :: "header \<Rightarrow> jsstring" where
  "getEventSource h = buffer_toString (buffer h) 35 47"

subsection \<open>Sequences of mutator calls\<close>




section \<open>The byte length in the words of the specification\<close>

text \<open>
  One byte for a code unit below 0x80, two for a unit in [0x80, 0x7FF], three for a unit
  in [0x800, 0xFFFF], and four for a surrogate pair as a whole.
\<close>

definition unit_bytes :: "16 word \<Rightarrow> nat" where
  "unit_bytes c = (if unat c < 0x80 then 1 else if unat c \<le> 0x7FF then 2 else 3)"

fun byteLength_spec :: "jsstring \<Rightarrow> nat" where
  "byteLength_spec [] = 0"
| "byteLength_spec [c] = unit_bytes c"
| "byteLength_spec (c # d # cs) =
     (if is_high c \<and> is_low d then 4 + byteLength_spec cs
      else unit_bytes c + byteLength_spec (d # cs))"

text \<open>Well-formed UTF-16: every surrogate is part of a pair, lead first.\<close>

fun well_formed :: "jsstring \<Rightarrow> bool" where
  "well_formed [] = True"
| "well_formed [c] = (\<not> is_high c \<and> \<not> is_low c)"
| "well_formed (c # d # cs) =
     (if is_high c \<and> is_low d then well_formed cs
      else \<not> is_high c \<and> \<not> is_low c \<and> well_formed (d # cs))"

section \<open>A platform and a granularity table for the examples\<close>

text \<open>A string of ASCII characters as code units.\<close>

definition ascii :: "string \<Rightarrow> jsstring" where
  "ascii s = map (\<lambda>c. of_nat (of_char c)) s"

text \<open>
  The example platform gives zeroed buffers and truncates fractional numbers. Its
  conversion of strings to numbers agrees with the language on the strings used below:
  the empty string is 0, the string \<open>70000\<close> is the number 70000, text that is no numeric
  literal is NaN.
\<close>

definition example_StringToNumber :: "jsstring \<Rightarrow> double" where
  "example_StringToNumber str =
     (if str = [] then 0
      else if str = ascii ''70000'' then 0x40F1170000000000
      else dbl_NaN)"

definition example_platform :: platform where
  "example_platform =
     \<lparr>StringToNumber = example_StringToNumber, fresh_memory = (\<lambda>i. 0),
      uint_fraction = Truncates\<rparr>"

text \<open>
  The test of the repository uses \<open>granularity.second\<close>, whose code is 2 and whose
  name is \<open>second\<close>.
\<close>

definition dbl_2 :: double where
  "dbl_2 = 0x4000000000000000"

definition example_granularity :: granularity where
  "example_granularity =
     \<lparr>enum_values = [JNumber dbl_2],
      properties = (\<lambda>code. if code = 2 then Some \<lparr>name = ascii ''second''\<rparr> else None)\<rparr>"

text \<open>
  The header of the repository's test,
  \<open>new Header ('testEventType', granularity.second, 'abcd-12345yz')\<close>.
\<close>

definition example_arguments :: "jsval list" where
  "example_arguments =
     [JString (ascii ''testEventType''), JNumber dbl_2, JString (ascii ''abcd-12345yz'')]"

definition example_header :: header where
  "example_header =
     \<lparr>FIXED_HEADER_SIZE = 47,
      buffer =
        [33, 0, 60, 0, 0, 0, 0, 0, 0, 0, 0, 0, 0, 0, 0, 0, 0, 0, 0, 0, 0, 0, 0,
         0, 0, 0, 0, 0, 0, 0, 0, 0, 0, 0, 0,
         97, 98, 99, 100, 45, 49, 50, 51, 52, 53, 121, 122,
         116, 101, 115, 116, 69, 118, 101, 110, 116, 84, 121, 112, 101]\<rparr>"

section \<open>What the mutators leave alone\<close>

text \<open>The two bytes of the header length field, at offset 1.\<close>

definition length_field :: "bytes \<Rightarrow> bytes" where
  "length_field buf = take 2 (drop 1 buf)"


section \<open>Properties of stringByteLength\<close>

text \<open>What one iteration of the loop adds to the counter for the unit it visits.\<close>

lemma unit_le: "unat (c :: 16 word) \<le> 0xffff"
  using unsigned_less [of c, where 'a = nat] by simp

lemma sbl_step:
  assumes "nat i < length str" "0 \<le> i"
  shows "sbl_loop str i s =
     sbl_loop str (if is_low (str ! nat i) then i - 2 else i - 1)
       (s + (unit_bytes (str ! nat i) - 1))"
  using assms unit_le [of "str ! nat i"]
  by (subst sbl_loop.simps)
     (auto simp: charCodeAt_def code_in_def is_low_def unit_bytes_def Let_def)

lemma sbl_done: "i < 0 \<Longrightarrow> sbl_loop str i s = s"
  by (subst sbl_loop.simps) simp

lemma sbl_at:
  "sbl_loop (pre @ c # rest) (int (length pre)) s =
   sbl_loop (pre @ c # rest)
     (if is_low c then int (length pre) - 2 else int (length pre) - 1)
     (s + (unit_bytes c - 1))"
  using sbl_step [of "int (length pre)" "pre @ c # rest" s] by simp

lemma unit_bytes_pos: "unit_bytes c = Suc (unit_bytes c - 1)"
  by (simp add: unit_bytes_def)

lemma unit_bytes_low: "is_low d \<Longrightarrow> unit_bytes d = 3"
  by (simp add: unit_bytes_def is_low_def)

text \<open>
  Running the loop over a suffix whose trail surrogates are paired consumes exactly that
  suffix and adds its byte length.
\<close>

lemma sbl_suffix:
  "trails_paired str \<Longrightarrow>
   sbl_loop (pre @ str) (int (length pre + length str) - 1) (s + length str) =
   sbl_loop (pre @ str) (int (length pre) - 1) (s + byteLength_spec str)"
proof (induction str arbitrary: pre s rule: trails_paired.induct)
  case 1
  then show ?case by simp
next
  case (2 c)
  have "s + unit_bytes c = Suc s + (unit_bytes c - 1)"
    using unit_bytes_pos [of c] by simp
  with 2 show ?case
    using sbl_at [of pre c "[]" "Suc s"] by simp
next
  case (3 c d cs)
  let ?l = "pre @ c # d # cs"
  show ?case
  proof (cases "is_high c \<and> is_low d")
    case True
    with 3 have p: "trails_paired cs" by simp
    have e1: "sbl_loop ?l (int (length pre + length (c # d # cs)) - 1)
                (s + length (c # d # cs)) =
              sbl_loop ?l (int (length (pre @ [c]))) (s + 2 + byteLength_spec cs)"
      using 3(1) [OF True p, of "pre @ [c, d]" "s + 2"] by (simp add: ac_simps)
    have e2: "sbl_loop ?l (int (length (pre @ [c]))) (s + 2 + byteLength_spec cs) =
              sbl_loop ?l (int (length pre) - 1) (s + 2 + byteLength_spec cs + 2)"
      using sbl_at [of "pre @ [c]" d cs "s + 2 + byteLength_spec cs"] True
        unit_bytes_low [of d] by simp
    have e3: "s + 2 + byteLength_spec cs + 2 = s + byteLength_spec (c # d # cs)"
      using True by simp
    show ?thesis by (simp only: e1 e2 e3)
  next
    case False
    with 3 have p: "trails_paired (d # cs)" and nl: "\<not> is_low c" by auto
    have e1: "sbl_loop ?l (int (length pre + length (c # d # cs)) - 1)
                (s + length (c # d # cs)) =
              sbl_loop ?l (int (length pre)) (Suc s + byteLength_spec (d # cs))"
      using 3(2) [OF False p, of "pre @ [c]" "Suc s"] by (simp add: ac_simps)
    have e2: "sbl_loop ?l (int (length pre)) (Suc s + byteLength_spec (d # cs)) =
              sbl_loop ?l (int (length pre) - 1)
                (Suc s + byteLength_spec (d # cs) + (unit_bytes c - 1))"
      using sbl_at [of pre c "d # cs" "Suc s + byteLength_spec (d # cs)"] nl by simp
    have e3: "Suc s + byteLength_spec (d # cs) + (unit_bytes c - 1) =
              s + byteLength_spec (c # d # cs)"
      using unit_bytes_pos [of c] False by auto
    show ?thesis by (simp only: e1 e2 e3)
  qed
qed

lemma sbl_spec: "trails_paired str \<Longrightarrow> stringByteLength str = byteLength_spec str"
  using sbl_suffix [of str "[]" 0] by (simp add: stringByteLength_def sbl_done)

lemma length_utf8_unit: "length (utf8_unit c) = unit_bytes c"
  by (auto simp: utf8_unit_def unit_bytes_def Let_def is_high_def is_low_def)

lemma length_utf8_pair: "length (utf8_pair c d) = 4"
  by (simp add: utf8_pair_def Let_def)

lemma length_chunks: "length (concat (utf8_chunks str)) = byteLength_spec str"
  by (induction str rule: utf8_chunks.induct) (auto simp: length_utf8_unit length_utf8_pair)

lemma length_utf8_encode: "length (utf8_encode str) = byteLength_spec str"
  by (simp add: utf8_encode_def length_chunks)

text \<open>
  Claim C8, as amended. For every string in which each trail (low) surrogate directly
  follows the lead (high) surrogate it pairs with, so for all well-formed UTF-16 text,
  \<open>stringByteLength\<close> returns the number of bytes of the UTF-8 encoding, and that
  number is the one the specification counts: 0 for the empty string, 1 for a unit below
  0x80, 2 for a unit in [0x80, 0x7FF], 3 for a unit in [0x800, 0xFFFF] and 4 for a
  surrogate pair as a whole.
\<close>

theorem stringByteLength_utf8:
  "trails_paired str \<Longrightarrow>
   stringByteLength str = length (utf8_encode str) \<and>
   stringByteLength str = byteLength_spec str"
  by (simp add: sbl_spec length_utf8_encode)

theorem stringByteLength_utf8_witness:
  "trails_paired [0x61, 0xD83D, 0xDE00, 0x20AC, 0xE9] \<and>
   stringByteLength [0x61, 0xD83D, 0xDE00, 0x20AC, 0xE9] = 10 \<and>
   length (utf8_encode [0x61, 0xD83D, 0xDE00, 0x20AC, 0xE9]) = 10"
  using stringByteLength_utf8 [of "[0x61, 0xD83D, 0xDE00, 0x20AC, 0xE9]"]
  by (simp add: is_high_def is_low_def unit_bytes_def)

text \<open>
  Claim C8 as stated fails on a string whose trail surrogate follows a unit that is not
  a lead surrogate: in \<open>[0xE9, 0xDC00]\<close> the loop skips the unit 0xE9 and never
  counts its second byte. The result is 4, the encoding has 5 bytes.
\<close>

theorem stringByteLength_unpaired_trail:
  "stringByteLength [0xE9, 0xDC00] \<noteq> length (utf8_encode [0xE9, 0xDC00]) \<and>
   stringByteLength [0xE9, 0xDC00] = 4 \<and>
   byteLength_spec [0xE9, 0xDC00] = 5"
  by (simp add: stringByteLength_def sbl_loop.simps charCodeAt_def code_in_def
      length_utf8_encode is_high_def is_low_def unit_bytes_def)

section \<open>Bits of byte 0\<close>

lemma bit8_int: "bit (8 :: int) n \<longleftrightarrow> n = 3"
proof -
  have e: "(8 :: int) = 2 ^ 3" by simp
  show ?thesis unfolding e bit_exp_iff by auto
qed

lemma bit7_int: "bit (7 :: int) n \<longleftrightarrow> n < 3"
proof -
  have e: "(7 :: int) = mask 3" by (simp add: mask_eq_exp_minus_1)
  show ?thesis unfolding e bit_mask_iff by auto
qed

lemma bit8: "bit (8 :: 8 word) n \<longleftrightarrow> n = 3"
  by (auto simp: bit8_int)

lemma bit7: "bit (7 :: 8 word) n \<longleftrightarrow> n < 3"
  by (auto simp: bit7_int)

lemma and8_bit: "(x :: 8 word) AND 8 \<noteq> 0 \<longleftrightarrow> bit x 3"
proof
  assume "x AND 8 \<noteq> 0"
  then obtain n where "bit (x AND 8) n" by (auto simp: bit_eq_iff)
  then show "bit x 3" by (auto simp: bit_and_iff bit8_int)
next
  assume "bit x 3"
  then have "bit (x AND 8) 3" by (simp add: bit_and_iff bit8_int)
  then show "x AND 8 \<noteq> 0" by auto
qed

lemma xor8_bit: "bit ((b :: 8 word) XOR 8) n \<longleftrightarrow> (if n = 3 then \<not> bit b 3 else bit b n)"
  by (auto simp: bit_xor_iff bit8_int)

lemma xor8_and8: "((b :: 8 word) XOR 8) AND 8 \<noteq> 0 \<longleftrightarrow> b AND 8 = 0"
  using and8_bit [of "b XOR 8"] and8_bit [of b] by (auto simp: xor8_bit)

lemma xor8_and7: "((b :: 8 word) XOR 8) AND 7 = b AND 7"
  by (rule bit_eqI) (auto simp: bit_and_iff xor8_bit bit7_int)

lemma xor8_drop4: "drop_bit 4 ((b :: 8 word) XOR 8) = drop_bit 4 b"
  by (rule bit_eqI) (auto simp: bit_drop_bit_eq xor8_bit)

section \<open>Properties of the buffer operations\<close>

lemma length_be_bytes: "length (be_bytes n v) = n"
  by (induction n arbitrary: v) auto

lemma be_value_snoc: "be_value (bs @ [b]) = be_value bs * 256 + unat b"
  by (simp add: be_value_def)

lemma unat_byte: "unat (of_nat (v mod 256) :: 8 word) = v mod 256"
  by (simp add: unat_of_nat)

lemma be_value_bytes: "be_value (be_bytes n v) = v mod 256 ^ n"
proof (induction n arbitrary: v)
  case 0
  then show ?case by (simp add: be_value_def)
next
  case (Suc n)
  have "v mod (256 * 256 ^ n) = 256 * (v div 256 mod 256 ^ n) + v mod 256"
    by (rule mod_mult2_eq)
  then show ?case by (simp add: be_value_snoc Suc unat_byte)
qed

lemma length_write_bytes:
  "off + length bs \<le> length buf \<Longrightarrow> length (write_bytes buf off bs) = length buf"
  by (simp add: write_bytes_def)

lemma take_write_bytes:
  "n \<le> off \<Longrightarrow> off \<le> length buf \<Longrightarrow> take n (write_bytes buf off bs) = take n buf"
  by (simp add: write_bytes_def)

lemma drop_write_bytes:
  "off + length bs \<le> n \<Longrightarrow> off \<le> length buf \<Longrightarrow>
   drop n (write_bytes buf off bs) = drop n buf"
  by (simp add: write_bytes_def)

lemma slice_write_bytes:
  "off \<le> length buf \<Longrightarrow> take (length bs) (drop off (write_bytes buf off bs)) = bs"
  by (simp add: write_bytes_def)

lemma nth_write_bytes:
  "off + length bs \<le> length buf \<Longrightarrow> i < off \<or> off + length bs \<le> i \<Longrightarrow>
   write_bytes buf off bs ! i = buf ! i"
  by (auto simp: write_bytes_def nth_append)

section \<open>Writing text into the buffer\<close>

lemma length_fit_chunks: "length (fit_chunks room cs) \<le> room"
proof (induction cs arbitrary: room)
  case Nil
  then show ?case by simp
next
  case (Cons c cs)
  show ?case using Cons [of "room - length c"] by auto
qed

lemma fit_chunks_all: "length (concat cs) \<le> room \<Longrightarrow> fit_chunks room cs = concat cs"
  by (induction cs arbitrary: room) auto

lemma buffer_write_fits:
  "byteLength_spec str \<le> length buf - off \<Longrightarrow>
   buffer_write buf str off = write_bytes buf off (utf8_encode str)"
  by (simp add: buffer_write_def utf8_encode_def fit_chunks_all length_chunks)


lemma length_buffer_write:
  "off \<le> length buf \<Longrightarrow> length (buffer_write buf str off) = length buf"
  using length_fit_chunks [of "length buf - off" "utf8_chunks str"]
  by (simp add: buffer_write_def write_bytes_def)

lemma take_buffer_write:
  "n \<le> off \<Longrightarrow> off \<le> length buf \<Longrightarrow> take n (buffer_write buf str off) = take n buf"
  by (simp add: buffer_write_def take_write_bytes)

section \<open>The mutators keep the length of the buffer and its length field\<close>

lemma length_field_update0: "length_field (buf[0 := x]) = length_field buf"
  unfolding length_field_def by (cases buf) simp_all




lemma length_field_kept:
  assumes "take 3 buf' = take 3 buf"
  shows "length_field buf' = length_field buf"
proof -
  have "drop 1 (take 3 buf') = drop 1 (take 3 buf)"
    using assms by simp
  then show ?thesis
    unfolding length_field_def drop_take by simp
qed


lemma length_field_write_bytes:
  "3 \<le> off \<Longrightarrow> off \<le> length buf \<Longrightarrow>
   length_field (write_bytes buf off bs) = length_field buf"
  by (rule length_field_kept) (simp add: take_write_bytes)

lemma length_field_buffer_write:
  "3 \<le> off \<Longrightarrow> off \<le> length buf \<Longrightarrow>
   length_field (buffer_write buf str off) = length_field buf"
  by (rule length_field_kept) (simp add: take_buffer_write)










section \<open>setComposed\<close>

text \<open>
  Claim C4. \<open>setComposed\<close> fails with the module's Error for every flag that is not
  a boolean. For a boolean flag it succeeds, \<open>isComposed\<close> then returns the flag,
  a second call with the same flag changes nothing, and only bit 3 of byte 0 can have
  changed: the protocol version, the granularity code, every other bit of byte 0 and
  every other byte of the buffer are as before. The buffer of a header is never empty
  (it has at least 47 bytes).
\<close>

theorem setComposed_bit3:
  assumes "buffer h \<noteq> []"
  shows "(typeof flag \<noteq> TBoolean \<longrightarrow> setComposed h flag = Inl Error) \<and>
         (\<exists>h'. setComposed h (JBoolean c) = Inr h' \<and>
               isComposed h' = c \<and>
               setComposed h' (JBoolean c) = Inr h' \<and>
               getProtocolVersion h' = getProtocolVersion h \<and>
               getTemporalGranularity h' = getTemporalGranularity h \<and>
               FIXED_HEADER_SIZE h' = FIXED_HEADER_SIZE h \<and>
               length (buffer h') = length (buffer h) \<and>
               tl (buffer h') = tl (buffer h) \<and>
               (\<forall>n. n \<noteq> 3 \<longrightarrow> bit (byte0 (buffer h')) n = bit (byte0 (buffer h)) n))"
proof -
  obtain b bs where buf: "buffer h = b # bs"
    using assms by (cases "buffer h") auto
  have 1: "typeof flag \<noteq> TBoolean \<longrightarrow> setComposed h flag = Inl Error"
    by (cases flag) (simp_all add: setComposed_def)
  have 2: "byte0 (flip_composed (b # bs)) = b XOR 8" "tl (flip_composed (b # bs)) = bs"
    "length (flip_composed (b # bs)) = Suc (length bs)"
    by (simp_all add: byte0_def flip_composed_def)
  show ?thesis
  proof (cases "(\<not> (b AND 8 \<noteq> 0)) = c")
    case True
    let ?h = "h\<lparr>buffer := flip_composed (buffer h)\<rparr>"
    have s: "setComposed h (JBoolean c) = Inr ?h"
      using True buf by (simp add: setComposed_def byte0_def)
    have c: "isComposed ?h = c"
      using True buf 2 by (auto simp: isComposed_def xor8_and8)
    have i: "setComposed ?h (JBoolean c) = Inr ?h"
      using True buf 2 by (auto simp: setComposed_def xor8_and8)
    show ?thesis
      using 1 s c i buf 2
      by (auto simp: getProtocolVersion_def getTemporalGranularity_def xor8_and7 xor8_drop4
          xor8_bit byte0_def)
  next
    case False
    have s: "setComposed h (JBoolean c) = Inr h"
      using False buf by (simp add: setComposed_def byte0_def)
    have c: "isComposed h = c"
      using False buf by (auto simp: isComposed_def byte0_def)
    show ?thesis using 1 s c by auto
  qed
qed


theorem setComposed_bit3_witness:
  "buffer example_header \<noteq> [] \<and>
   typeof (JNumber dbl_2) \<noteq> TBoolean \<and>
   setComposed example_header (JNumber dbl_2) = Inl Error \<and>
   (\<exists>h'. setComposed example_header (JBoolean True) = Inr h' \<and>
         isComposed h' = True \<and>
         setComposed h' (JBoolean True) = Inr h' \<and>
         getProtocolVersion h' = getProtocolVersion example_header \<and>
         getTemporalGranularity h' = getTemporalGranularity example_header \<and>
         tl (buffer h') = tl (buffer example_header))"
proof -
  have ne: "buffer example_header \<noteq> []"
    by (simp add: example_header_def)
  show ?thesis
    using ne setComposed_bit3 [OF ne, of "JNumber dbl_2" True] by auto
qed

section \<open>Numbers that are integers\<close>

lemma dbl_int_scaled:
  assumes "dbl_int d = Some k"
  shows "dbl_scaled d = k * 2 ^ 1075" "\<not> dbl_isNaN d"
proof -
  from assms have e: "dbl_exp d \<noteq> 2047" and m: "dbl_mag d mod 2 ^ 1075 = 0"
    and k: "k = dbl_scaled d div 2 ^ 1075"
    by (auto simp: dbl_int_def split: if_splits)
  from m have "(2::nat) ^ 1075 dvd dbl_mag d" by (simp only: dvd_eq_mod_eq_0)
  then have "(2::int) ^ 1075 dvd int (dbl_mag d)"
    by (metis of_nat_dvd_iff of_nat_numeral of_nat_power)
  then have "(2::int) ^ 1075 dvd dbl_scaled d"
    by (simp only: dbl_scaled_def dvd_minus_iff split: if_splits) simp
  then show "dbl_scaled d = k * 2 ^ 1075"
    unfolding k by (simp only: dvd_div_mult_self)
  show "\<not> dbl_isNaN d" using e by (simp add: dbl_isNaN_def)
qed

lemma scaled_4294967295: "dbl_scaled dbl_4294967295 = 4294967295 * 2 ^ 1075"
  by (simp add: dbl_scaled_def dbl_mag_def dbl_sign_def dbl_exp_def dbl_frac_def
      dbl_4294967295_def)

lemma not_nan_4294967295: "\<not> dbl_isNaN dbl_4294967295"
  by (simp add: dbl_isNaN_def dbl_exp_def dbl_4294967295_def)


lemma gt_4294967295:
  "dbl_gt d dbl_4294967295 \<longleftrightarrow> \<not> dbl_isNaN d \<and> 4294967295 * 2 ^ 1075 < dbl_scaled d"
  unfolding dbl_gt_def scaled_4294967295 using not_nan_4294967295 by simp

lemma int_in_range_not_gt:
  assumes "dbl_int d = Some k" "k \<le> 4294967295"
  shows "\<not> dbl_gt d dbl_4294967295"
proof -
  have "k * 2 ^ 1075 \<le> 4294967295 * (2::int) ^ 1075"
    using assms(2) by (intro mult_right_mono) simp_all
  then show ?thesis
    unfolding gt_4294967295 dbl_int_scaled(1) [OF assms(1)] by simp
qed

lemma int_above_gt:
  assumes "dbl_int d = Some k" "4294967295 < k"
  shows "dbl_gt d dbl_4294967295"
proof -
  have "4294967295 * (2::int) ^ 1075 < k * 2 ^ 1075"
    using assms(2) by (intro mult_strict_right_mono) simp_all
  then show ?thesis
    unfolding gt_4294967295 dbl_int_scaled(1) [OF assms(1)]
    using dbl_int_scaled(2) [OF assms(1)] by simp
qed

lemma uint32_of_int:
  "dbl_int d = Some k \<Longrightarrow>
   uint32_of P d = (if 0 \<le> k \<and> k \<le> 4294967295 then Some (nat k) else None)"
  by (simp add: uint32_of_def)

lemma read_after_write:
  assumes "off + n \<le> length buf" "v < 256 ^ n"
  shows "be_value (take n (drop off (write_bytes buf off (be_bytes n v)))) = v"
proof -
  have "take n (drop off (write_bytes buf off (be_bytes n v))) = be_bytes n v"
    using slice_write_bytes [of off buf "be_bytes n v"] assms(1)
    by (simp add: length_be_bytes)
  then show ?thesis using assms(2) by (simp add: be_value_bytes)
qed


section \<open>setPayloadLength\<close>

text \<open>
  Claim C5, as amended. On a header (its buffer has at least 47 bytes, 7 are enough
  here) \<open>setPayloadLength\<close> fails with the module's Error for every value that is
  not a number and for every number above \<open>2^32 - 1\<close>, so for the integer 4294967296.
  A negative integer passes the setter's own check and is refused by the buffer's
  \<open>writeUInt32BE\<close> with a range error. For every integer from 0 to 4294967295 the
  call succeeds, \<open>getPayloadLength\<close> then returns that integer, and only the
  bytes 3 to 6 of the buffer can have changed. Numbers in range that are not integers
  are not covered: the setter does not check for them.
\<close>

theorem setPayloadLength_range:
  assumes "7 \<le> length (buffer h)"
  shows
   "(typeof v \<noteq> TNumber \<longrightarrow> setPayloadLength P h v = Inl Error) \<and>
    (\<not> dbl_isNaN d \<and> 4294967295 * 2 ^ 1075 < dbl_scaled d \<longrightarrow>
       setPayloadLength P h (JNumber d) = Inl Error) \<and>
    (dbl_int d = Some k \<and> 4294967295 < k \<longrightarrow>
       setPayloadLength P h (JNumber d) = Inl Error) \<and>
    (dbl_int d = Some k \<and> k < 0 \<longrightarrow>
       setPayloadLength P h (JNumber d) = Inl RangeError) \<and>
    (dbl_int d = Some k \<and> 0 \<le> k \<and> k \<le> 4294967295 \<longrightarrow>
       (\<exists>h'. setPayloadLength P h (JNumber d) = Inr h' \<and>
             getPayloadLength h' = Inr (nat k) \<and>
             FIXED_HEADER_SIZE h' = FIXED_HEADER_SIZE h \<and>
             length (buffer h') = length (buffer h) \<and>
             take 3 (buffer h') = take 3 (buffer h) \<and>
             drop 7 (buffer h') = drop 7 (buffer h)))"
proof -
  have 1: "typeof v \<noteq> TNumber \<longrightarrow> setPayloadLength P h v = Inl Error"
    by (cases v) (simp_all add: setPayloadLength_def)
  have 2: "\<not> dbl_isNaN d \<and> 4294967295 * 2 ^ 1075 < dbl_scaled d \<longrightarrow>
       setPayloadLength P h (JNumber d) = Inl Error"
    by (simp add: setPayloadLength_def gt_4294967295)
  have 3: "dbl_int d = Some k \<and> 4294967295 < k \<longrightarrow>
       setPayloadLength P h (JNumber d) = Inl Error"
    using int_above_gt [of d k] by (auto simp: setPayloadLength_def)
  have 4: "dbl_int d = Some k \<and> k < 0 \<longrightarrow>
       setPayloadLength P h (JNumber d) = Inl RangeError"
  proof
    assume a: "dbl_int d = Some k \<and> k < 0"
    then have "\<not> dbl_gt d dbl_4294967295"
      using int_in_range_not_gt [of d k] by simp
    moreover have "uint32_of P d = None"
      using a by (simp add: uint32_of_int)
    ultimately show "setPayloadLength P h (JNumber d) = Inl RangeError"
      by (simp add: setPayloadLength_def writeUInt32BE_def)
  qed
  have 5: "dbl_int d = Some k \<and> 0 \<le> k \<and> k \<le> 4294967295 \<longrightarrow>
       (\<exists>h'. setPayloadLength P h (JNumber d) = Inr h' \<and>
             getPayloadLength h' = Inr (nat k) \<and>
             FIXED_HEADER_SIZE h' = FIXED_HEADER_SIZE h \<and>
             length (buffer h') = length (buffer h) \<and>
             take 3 (buffer h') = take 3 (buffer h) \<and>
             drop 7 (buffer h') = drop 7 (buffer h))"
  proof
    assume a: "dbl_int d = Some k \<and> 0 \<le> k \<and> k \<le> 4294967295"
    let ?b = "write_bytes (buffer h) 3 (be_bytes 4 (nat k))"
    have g: "\<not> dbl_gt d dbl_4294967295"
      using a int_in_range_not_gt [of d k] by simp
    have u: "uint32_of P d = Some (nat k)"
      using a by (simp add: uint32_of_int)
    have s: "setPayloadLength P h (JNumber d) = Inr (h\<lparr>buffer := ?b\<rparr>)"
      using g u assms by (simp add: setPayloadLength_def writeUInt32BE_def)
    have l: "length ?b = length (buffer h)"
      using assms by (simp add: length_write_bytes length_be_bytes)
    have "nat k < 256 ^ 4" using a by auto
    then have r: "be_value (take 4 (drop 3 ?b)) = nat k"
      using read_after_write [of 3 4 "buffer h" "nat k"] assms by simp
    have t: "take 3 ?b = take 3 (buffer h)"
      using assms by (simp add: take_write_bytes)
    have d: "drop 7 ?b = drop 7 (buffer h)"
      using assms by (simp add: drop_write_bytes length_be_bytes)
    show "\<exists>h'. setPayloadLength P h (JNumber d) = Inr h' \<and>
             getPayloadLength h' = Inr (nat k) \<and>
             FIXED_HEADER_SIZE h' = FIXED_HEADER_SIZE h \<and>
             length (buffer h') = length (buffer h) \<and>
             take 3 (buffer h') = take 3 (buffer h) \<and>
             drop 7 (buffer h') = drop 7 (buffer h)"
      using s l r t d assms by (simp add: getPayloadLength_def readUInt32BE_def)
  qed
  from 1 2 3 4 5 show ?thesis by blast
qed

lemma int_4294967295: "dbl_int dbl_4294967295 = Some 4294967295"
  by (simp add: dbl_int_def dbl_scaled_def dbl_mag_def dbl_sign_def dbl_exp_def dbl_frac_def
      dbl_4294967295_def)

lemma int_4294967296: "dbl_int 0x41F0000000000000 = Some 4294967296"
  by (simp add: dbl_int_def dbl_scaled_def dbl_mag_def dbl_sign_def dbl_exp_def dbl_frac_def)

lemma example_header_length: "length (buffer example_header) = 60"
  by (simp add: example_header_def)

theorem setPayloadLength_range_witness:
  "7 \<le> length (buffer example_header) \<and>
   dbl_int dbl_4294967295 = Some 4294967295 \<and>
   (\<exists>h'. setPayloadLength example_platform example_header (JNumber dbl_4294967295) = Inr h' \<and>
         getPayloadLength h' = Inr 4294967295) \<and>
   dbl_int 0x41F0000000000000 = Some 4294967296 \<and>
   setPayloadLength example_platform example_header (JNumber 0x41F0000000000000) = Inl Error"
proof -
  have l: "7 \<le> length (buffer example_header)"
    by (simp add: example_header_length)
  show ?thesis
    using l int_4294967295 int_4294967296
      setPayloadLength_range [OF l, of JNull example_platform dbl_4294967295 4294967295]
      setPayloadLength_range [OF l, of JNull example_platform "0x41F0000000000000" 4294967296]
    by auto
qed

text \<open>
  Claim C5 as stated fails for a number with a fractional part: the setter checks the
  type and the upper bound only. On a platform whose buffer truncates, the call with
  1.5 succeeds and \<open>getPayloadLength\<close> returns 1.
\<close>

theorem setPayloadLength_fraction:
  "dbl_int 0x3FF8000000000000 = None \<and>
   \<not> isl (setPayloadLength example_platform example_header (JNumber 0x3FF8000000000000)) \<and>
   getPayloadLength
     (projr (setPayloadLength example_platform example_header (JNumber 0x3FF8000000000000))) =
   Inr 1"
proof -
  have i: "dbl_int 0x3FF8000000000000 = None"
    by (simp add: dbl_int_def dbl_mag_def dbl_exp_def dbl_frac_def)
  have g: "\<not> dbl_gt 0x3FF8000000000000 dbl_4294967295"
    by (simp add: gt_4294967295 dbl_scaled_def dbl_mag_def dbl_sign_def dbl_exp_def
        dbl_frac_def)
  have u: "uint32_of example_platform 0x3FF8000000000000 = Some 1"
    by (simp add: uint32_of_def i example_platform_def dbl_isNaN_def dbl_scaled_def
        dbl_mag_def dbl_sign_def dbl_exp_def dbl_frac_def)
  have s: "setPayloadLength example_platform example_header (JNumber 0x3FF8000000000000) =
      Inr (example_header\<lparr>buffer := write_bytes (buffer example_header) 3 (be_bytes 4 1)\<rparr>)"
    using g u by (simp add: setPayloadLength_def writeUInt32BE_def example_header_length)
  have r: "be_value (take 4 (drop 3 (write_bytes (buffer example_header) 3 (be_bytes 4 1)))) = 1"
    using read_after_write [of 3 4 "buffer example_header" 1]
    by (simp add: example_header_length)
  show ?thesis
    using i s r
    by (simp add: getPayloadLength_def readUInt32BE_def length_write_bytes length_be_bytes
        example_header_length)
qed

section \<open>The time setters\<close>

lemma scaled_2E63:
  "dbl_scaled dbl_2E63_minus_1 =
   2000000000000000115715919885453939654786757378350080876345294848 * 2 ^ 1075"
  by (simp add: dbl_scaled_def dbl_mag_def dbl_sign_def dbl_exp_def dbl_frac_def
      dbl_2E63_minus_1_def)

lemma not_nan_2E63: "\<not> dbl_isNaN dbl_2E63_minus_1"
  by (simp add: dbl_isNaN_def dbl_exp_def dbl_2E63_minus_1_def)

lemma gt_2E63:
  "dbl_gt d dbl_2E63_minus_1 \<longleftrightarrow>
   \<not> dbl_isNaN d \<and>
   2000000000000000115715919885453939654786757378350080876345294848 * 2 ^ 1075 < dbl_scaled d"
  unfolding dbl_gt_def scaled_2E63 using not_nan_2E63 by simp

lemma double_round_trip: "of_nat (be_value (be_bytes 8 (unat d))) = (d :: double)"
proof -
  have "unat d < 2 ^ 64" using unsigned_less [of d, where 'a = nat] by simp
  then have "unat d mod 256 ^ 8 = unat d" by simp
  then show ?thesis by (simp only: be_value_bytes) simp
qed

lemma write_double:
  assumes "off + 8 \<le> length buf"
  shows "writeDoubleBE buf d off = Inr (write_bytes buf off (be_bytes 8 (unat d)))"
    and "readDoubleBE (write_bytes buf off (be_bytes 8 (unat d))) off = Inr d"
    and "length (write_bytes buf off (be_bytes 8 (unat d))) = length buf"
    and "take 8 (drop off (write_bytes buf off (be_bytes 8 (unat d)))) = be_bytes 8 (unat d)"
    and "take off (write_bytes buf off (be_bytes 8 (unat d))) = take off buf"
    and "drop (off + 8) (write_bytes buf off (be_bytes 8 (unat d))) = drop (off + 8) buf"
proof -
  let ?b = "write_bytes buf off (be_bytes 8 (unat d))"
  show "writeDoubleBE buf d off = Inr ?b"
    using assms by (simp add: writeDoubleBE_def)
  show l: "length ?b = length buf"
    using assms by (simp add: length_write_bytes length_be_bytes)
  show s: "take 8 (drop off ?b) = be_bytes 8 (unat d)"
    using slice_write_bytes [of off buf "be_bytes 8 (unat d)"] assms
    by (simp add: length_be_bytes)
  show "readDoubleBE ?b off = Inr d"
    using assms unfolding readDoubleBE_def l s double_round_trip by simp
  show "take off ?b = take off buf"
    using assms by (simp add: take_write_bytes)
  show "drop (off + 8) ?b = drop (off + 8) buf"
    using assms by (simp add: drop_write_bytes length_be_bytes)
qed


text \<open>
  Claim C6, as amended. \<open>setOccurrenceTime\<close> and \<open>setDetectionTime\<close> fail with the
  module's Error for every value that is not a number and for every number greater than
  the value of the expression \<open>2E+63 - 1\<close>, the double
  2000000000000000115715919885453939654786757378350080876345294848 (two times ten to the
  power 63, not two to the power 63). Every other number, NaN included, is written as its
  64-bit big-endian representation at offset 7 (respectively 15); the matching getter
  returns it and no other byte changes.
\<close>

theorem time_setters:
  assumes "23 \<le> length (buffer h)"
  shows
   "(typeof v \<noteq> TNumber \<longrightarrow>
       setOccurrenceTime h v = Inl Error \<and> setDetectionTime h v = Inl Error) \<and>
    (\<not> dbl_isNaN d \<and>
     2000000000000000115715919885453939654786757378350080876345294848 * 2 ^ 1075
       < dbl_scaled d \<longrightarrow>
       setOccurrenceTime h (JNumber d) = Inl Error \<and>
       setDetectionTime h (JNumber d) = Inl Error) \<and>
    (dbl_isNaN d \<or>
     dbl_scaled d
       \<le> 2000000000000000115715919885453939654786757378350080876345294848 * 2 ^ 1075 \<longrightarrow>
       (\<exists>h1 h2.
          setOccurrenceTime h (JNumber d) = Inr h1 \<and>
          getOccurrenceTime h1 = Inr d \<and>
          take 8 (drop 7 (buffer h1)) = be_bytes 8 (unat d) \<and>
          take 7 (buffer h1) = take 7 (buffer h) \<and>
          drop 15 (buffer h1) = drop 15 (buffer h) \<and>
          length (buffer h1) = length (buffer h) \<and>
          setDetectionTime h (JNumber d) = Inr h2 \<and>
          getDetectionTime h2 = Inr d \<and>
          take 8 (drop 15 (buffer h2)) = be_bytes 8 (unat d) \<and>
          take 15 (buffer h2) = take 15 (buffer h) \<and>
          drop 23 (buffer h2) = drop 23 (buffer h) \<and>
          length (buffer h2) = length (buffer h)))"
proof -
  have 1: "typeof v \<noteq> TNumber \<longrightarrow>
       setOccurrenceTime h v = Inl Error \<and> setDetectionTime h v = Inl Error"
    by (cases v) (simp_all add: setOccurrenceTime_def setDetectionTime_def)
  have 2: "\<not> dbl_isNaN d \<and>
     2000000000000000115715919885453939654786757378350080876345294848 * 2 ^ 1075
       < dbl_scaled d \<longrightarrow>
       setOccurrenceTime h (JNumber d) = Inl Error \<and>
       setDetectionTime h (JNumber d) = Inl Error"
    by (simp add: setOccurrenceTime_def setDetectionTime_def gt_2E63)
  have 3: "dbl_isNaN d \<or>
     dbl_scaled d
       \<le> 2000000000000000115715919885453939654786757378350080876345294848 * 2 ^ 1075 \<longrightarrow>
       (\<exists>h1 h2.
          setOccurrenceTime h (JNumber d) = Inr h1 \<and>
          getOccurrenceTime h1 = Inr d \<and>
          take 8 (drop 7 (buffer h1)) = be_bytes 8 (unat d) \<and>
          take 7 (buffer h1) = take 7 (buffer h) \<and>
          drop 15 (buffer h1) = drop 15 (buffer h) \<and>
          length (buffer h1) = length (buffer h) \<and>
          setDetectionTime h (JNumber d) = Inr h2 \<and>
          getDetectionTime h2 = Inr d \<and>
          take 8 (drop 15 (buffer h2)) = be_bytes 8 (unat d) \<and>
          take 15 (buffer h2) = take 15 (buffer h) \<and>
          drop 23 (buffer h2) = drop 23 (buffer h) \<and>
          length (buffer h2) = length (buffer h))"
  proof
    assume a: "dbl_isNaN d \<or>
     dbl_scaled d
       \<le> 2000000000000000115715919885453939654786757378350080876345294848 * 2 ^ 1075"
    then have g: "\<not> dbl_gt d dbl_2E63_minus_1"
      unfolding gt_2E63 by auto
    have o: "7 + 8 \<le> length (buffer h)" and t: "15 + 8 \<le> length (buffer h)"
      using assms by simp_all
    let ?h1 = "h\<lparr>buffer := write_bytes (buffer h) 7 (be_bytes 8 (unat d))\<rparr>"
    let ?h2 = "h\<lparr>buffer := write_bytes (buffer h) 15 (be_bytes 8 (unat d))\<rparr>"
    have s1: "setOccurrenceTime h (JNumber d) = Inr ?h1"
      using g write_double(1) [OF o, of d] by (simp add: setOccurrenceTime_def)
    have s2: "setDetectionTime h (JNumber d) = Inr ?h2"
      using g write_double(1) [OF t, of d] by (simp add: setDetectionTime_def)
    have p1: "getOccurrenceTime ?h1 = Inr d \<and>
          take 8 (drop 7 (buffer ?h1)) = be_bytes 8 (unat d) \<and>
          take 7 (buffer ?h1) = take 7 (buffer h) \<and>
          drop 15 (buffer ?h1) = drop 15 (buffer h) \<and>
          length (buffer ?h1) = length (buffer h)"
      using write_double(2-6) [OF o, of d] by (simp add: getOccurrenceTime_def)
    have p2: "getDetectionTime ?h2 = Inr d \<and>
          take 8 (drop 15 (buffer ?h2)) = be_bytes 8 (unat d) \<and>
          take 15 (buffer ?h2) = take 15 (buffer h) \<and>
          drop 23 (buffer ?h2) = drop 23 (buffer h) \<and>
          length (buffer ?h2) = length (buffer h)"
      using write_double(2-6) [OF t, of d] by (simp add: getDetectionTime_def)
    from s1 s2 p1 p2 show "\<exists>h1 h2.
          setOccurrenceTime h (JNumber d) = Inr h1 \<and>
          getOccurrenceTime h1 = Inr d \<and>
          take 8 (drop 7 (buffer h1)) = be_bytes 8 (unat d) \<and>
          take 7 (buffer h1) = take 7 (buffer h) \<and>
          drop 15 (buffer h1) = drop 15 (buffer h) \<and>
          length (buffer h1) = length (buffer h) \<and>
          setDetectionTime h (JNumber d) = Inr h2 \<and>
          getDetectionTime h2 = Inr d \<and>
          take 8 (drop 15 (buffer h2)) = be_bytes 8 (unat d) \<and>
          take 15 (buffer h2) = take 15 (buffer h) \<and>
          drop 23 (buffer h2) = drop 23 (buffer h) \<and>
          length (buffer h2) = length (buffer h)"
      by blast
  qed
  from 1 2 3 show ?thesis by blast
qed

lemma scaled_time_example: "dbl_scaled 0x4271F71FB04CB000 = 1234567890123 * 2 ^ 1075"
  by (simp add: dbl_scaled_def dbl_mag_def dbl_sign_def dbl_exp_def dbl_frac_def)

theorem time_setters_witness:
  "23 \<le> length (buffer example_header) \<and>
   dbl_scaled 0x4271F71FB04CB000
     \<le> 2000000000000000115715919885453939654786757378350080876345294848 * 2 ^ 1075 \<and>
   (\<exists>h1 h2.
      setOccurrenceTime example_header (JNumber 0x4271F71FB04CB000) = Inr h1 \<and>
      getOccurrenceTime h1 = Inr 0x4271F71FB04CB000 \<and>
      setDetectionTime example_header (JNumber 0x4271F71FB04CB000) = Inr h2 \<and>
      getDetectionTime h2 = Inr 0x4271F71FB04CB000) \<and>
   setOccurrenceTime example_header JNull = Inl Error"
proof -
  have l: "23 \<le> length (buffer example_header)"
    by (simp add: example_header_length)
  have b: "dbl_scaled 0x4271F71FB04CB000
     \<le> 2000000000000000115715919885453939654786757378350080876345294848 * 2 ^ 1075"
    unfolding scaled_time_example by simp
  show ?thesis
    using l b time_setters [OF l, of JNull "0x4271F71FB04CB000"] by auto
qed

text \<open>
  Claim C6 as stated fails for a number between \<open>2^63 - 1\<close> and the bound of the
  code: two to the power 64 is an integer above \<open>2^63 - 1\<close>, and both setters accept
  and store it.
\<close>

theorem time_setters_accept_2_pow_64:
  "dbl_int 0x43F0000000000000 = Some (2 ^ 64) \<and>
   \<not> isl (setOccurrenceTime example_header (JNumber 0x43F0000000000000)) \<and>
   \<not> isl (setDetectionTime example_header (JNumber 0x43F0000000000000)) \<and>
   getOccurrenceTime (projr (setOccurrenceTime example_header (JNumber 0x43F0000000000000))) =
     Inr 0x43F0000000000000"
proof -
  have i: "dbl_int 0x43F0000000000000 = Some (2 ^ 64)"
    by (simp add: dbl_int_def dbl_scaled_def dbl_mag_def dbl_sign_def dbl_exp_def dbl_frac_def)
  have g: "\<not> dbl_gt 0x43F0000000000000 dbl_2E63_minus_1"
    unfolding gt_2E63
    by (simp add: dbl_scaled_def dbl_mag_def dbl_sign_def dbl_exp_def dbl_frac_def)
  have o: "7 + 8 \<le> length (buffer example_header)"
    and t: "15 + 8 \<le> length (buffer example_header)"
    by (simp_all add: example_header_length)
  show ?thesis
    using i g write_double(1,2) [OF o, of "0x43F0000000000000"]
      write_double(1) [OF t, of "0x43F0000000000000"]
    by (simp add: setOccurrenceTime_def setDetectionTime_def getOccurrenceTime_def)
qed

section \<open>Decoding what the encoder wrote\<close>

lemma dec1:
  "b < 0x80 \<Longrightarrow>
   utf8_dec cp 0 lo hi (b # bs) = of_nat b # utf8_dec 0 0 0x80 0xBF bs"
  by (subst utf8_dec.simps(2)) simp

lemma dec_last:
  "lo \<le> b \<Longrightarrow> b \<le> hi \<Longrightarrow>
   utf8_dec cp 1 lo hi (b # bs) =
   units_of_code_point (cp * 64 + (b - 0x80)) @ utf8_dec 0 0 0x80 0xBF bs"
  by (subst utf8_dec.simps(2)) simp

lemma dec_more:
  "lo \<le> b \<Longrightarrow> b \<le> hi \<Longrightarrow> 1 < needed \<Longrightarrow>
   utf8_dec cp needed lo hi (b # bs) =
   utf8_dec (cp * 64 + (b - 0x80)) (needed - 1) 0x80 0xBF bs"
  by (subst utf8_dec.simps(2)) simp

lemma dec_lead2:
  "0xC2 \<le> b \<Longrightarrow> b \<le> 0xDF \<Longrightarrow>
   utf8_dec cp 0 lo hi (b # bs) = utf8_dec (b - 0xC0) 1 0x80 0xBF bs"
  by (subst utf8_dec.simps(2)) simp

lemma dec_lead3:
  "0xE0 \<le> b \<Longrightarrow> b \<le> 0xEF \<Longrightarrow>
   utf8_dec cp 0 lo hi (b # bs) =
   utf8_dec (b - 0xE0) 2 (if b = 0xE0 then 0xA0 else 0x80) (if b = 0xED then 0x9F else 0xBF) bs"
  by (subst utf8_dec.simps(2)) simp

lemma dec_lead4:
  "0xF0 \<le> b \<Longrightarrow> b \<le> 0xF4 \<Longrightarrow>
   utf8_dec cp 0 lo hi (b # bs) =
   utf8_dec (b - 0xF0) 3 (if b = 0xF0 then 0x90 else 0x80) (if b = 0xF4 then 0x8F else 0xBF) bs"
  by (subst utf8_dec.simps(2)) simp


lemma unit_of_nat: "of_nat (unat c) = (c :: 16 word)"
  by simp

lemma split64: "(n :: nat) = n div 64 * 64 + n mod 64 \<and> n mod 64 < 64"
  by simp

lemma decode_unit:
  assumes "\<not> is_high c" "\<not> is_low c"
  shows "utf8_dec 0 0 0x80 0xBF (utf8_unit c @ rest) = c # utf8_dec 0 0 0x80 0xBF rest"
proof -
  define n where "n = unat c"
  define q where "q = n div 64"
  define r where "r = n mod 64"
  define p where "p = q div 64"
  define t where "t = q mod 64"
  have le: "n \<le> 0xffff" unfolding n_def by (rule unit_le)
  have c: "of_nat n = c" unfolding n_def by simp
  have u: "units_of_code_point n = [c]"
    using le c by (simp add: units_of_code_point_def)
  have ns: "n < 0xD800 \<or> 0xDFFF < n"
    using assms unfolding n_def is_high_def is_low_def by linarith
  have nq: "n = q * 64 + r" "r < 64"
    using split64 [of n] by (simp_all add: q_def r_def)
  have qp: "q = p * 64 + t" "t < 64"
    using split64 [of q] by (simp_all add: p_def t_def)
  have n4096: "n div 4096 = p"
    using div_mult2_eq [of n 64 64] by (simp add: q_def p_def)
  consider (one) "n < 0x80" | (two) "0x80 \<le> n" "n < 0x800" | (three) "0x800 \<le> n"
    by linarith
  then show ?thesis
  proof cases
    case one
    then have "utf8_unit c = [n]" by (simp add: utf8_unit_def n_def Let_def)
    then show ?thesis using one c by (simp add: dec1)
  next
    case two
    have e: "utf8_unit c = [0xC0 + q, 0x80 + r]"
      using two by (simp add: utf8_unit_def n_def [symmetric] Let_def q_def r_def)
    have "2 \<le> q \<and> q \<le> 31" using nq two by arith
    then have b1: "0xC2 \<le> 0xC0 + q" "0xC0 + q \<le> 0xDF" by simp_all
    have b2: "0x80 \<le> 0x80 + r" "0x80 + r \<le> 0xBF" using nq by simp_all
    have v: "(0xC0 + q - 0xC0) * 64 + (0x80 + r - 0x80) = n"
      using nq by simp
    show ?thesis
      unfolding e append_Cons append_Nil dec_lead2 [OF b1] dec_last [OF b2] v u by simp
  next
    case three
    have e: "utf8_unit c = [0xE0 + p, 0x80 + t, 0x80 + r]"
      using three assms
      by (simp add: utf8_unit_def n_def [symmetric] Let_def n4096)
         (simp add: q_def r_def t_def)
    have q1: "32 \<le> q \<and> q \<le> 1023" using nq three le by arith
    have p1: "p \<le> 15 \<and> (p = 0 \<longrightarrow> 32 \<le> t)" using qp q1 by arith
    have p2: "p = 13 \<longrightarrow> t < 32" using nq qp ns by arith
    have b1: "0xE0 \<le> 0xE0 + p" "0xE0 + p \<le> 0xEF"
      using p1 by simp_all
    have b2: "(if 0xE0 + p = 0xE0 then 0xA0 else 0x80) \<le> 0x80 + t"
      using p1 by simp
    have b2': "0x80 + t \<le> (if 0xE0 + p = 0xED then 0x9F else 0xBF)"
      using p2 qp by auto
    have b3: "0x80 \<le> 0x80 + r" "0x80 + r \<le> 0xBF" using nq by simp_all
    have v: "((0xE0 + p - 0xE0) * 64 + (0x80 + t - 0x80)) * 64 + (0x80 + r - 0x80) = n"
      using nq qp by simp
    have m: "(1::nat) < 2" "2 - 1 = (1::nat)" by simp_all
    show ?thesis
      unfolding e append_Cons append_Nil dec_lead3 [OF b1] dec_more [OF b2 b2' m(1)] m(2)
        dec_last [OF b3] v u by simp
  qed
qed


lemma decode_pair:
  assumes "is_high h" "is_low l"
  shows "utf8_dec 0 0 0x80 0xBF (utf8_pair h l @ rest) = h # l # utf8_dec 0 0 0x80 0xBF rest"
proof -
  define a where "a = unat h - 0xD800"
  define b where "b = unat l - 0xDC00"
  define cp where "cp = pair_code_point h l"
  define q where "q = cp div 64"
  define r where "r = cp mod 64"
  define p where "p = q div 64"
  define t where "t = q mod 64"
  define w where "w = p div 64"
  define s where "s = p mod 64"
  have ha: "unat h = 0xD800 + a" "a < 1024"
    using assms(1) unfolding a_def is_high_def by linarith+
  have lb: "unat l = 0xDC00 + b" "b < 1024"
    using assms(2) unfolding b_def is_low_def by linarith+
  have cpab: "cp = 0x10000 + (a * 1024 + b)"
    unfolding cp_def pair_code_point_def a_def b_def by simp
  have dm: "(a * 1024 + b) div 1024 = a" "(a * 1024 + b) mod 1024 = b"
    using lb(2) by simp_all
  have hl: "of_nat (0xD800 + a) = h" "of_nat (0xDC00 + b) = l"
    using ha(1) lb(1) unit_of_nat [of h] unit_of_nat [of l] by simp_all
  have x: "cp - 0x10000 = a * 1024 + b" "\<not> cp < 0x10000"
    using cpab by simp_all
  have u: "units_of_code_point cp = [h, l]"
    unfolding units_of_code_point_def x dm using x(2) hl by simp
  have cq: "cp = q * 64 + r" "r < 64"
    using split64 [of cp] by (simp_all add: q_def r_def)
  have qp: "q = p * 64 + t" "t < 64"
    using split64 [of q] by (simp_all add: p_def t_def)
  have pw: "p = w * 64 + s" "s < 64"
    using split64 [of p] by (simp_all add: w_def s_def)
  have d4096: "cp div 4096 = p"
    using div_mult2_eq [of cp 64 64] by (simp add: q_def p_def)
  have d262144: "cp div 262144 = w"
    using div_mult2_eq [of cp 4096 64] by (simp add: d4096 w_def)
  have e: "utf8_pair h l = [0xF0 + w, 0x80 + s, 0x80 + t, 0x80 + r]"
    unfolding utf8_pair_def cp_def [symmetric] Let_def d262144 d4096
    by (simp add: s_def t_def r_def q_def)
  have rng: "0x10000 \<le> cp \<and> cp \<le> 0x10FFFF"
    using cpab ha(2) lb(2) by arith
  have p1: "16 \<le> p \<and> p \<le> 271" using rng cq qp by arith
  have w1: "w \<le> 4 \<and> (w = 0 \<longrightarrow> 16 \<le> s) \<and> (w = 4 \<longrightarrow> s \<le> 15)"
    using p1 pw by arith
  have b1: "0xF0 \<le> 0xF0 + w" "0xF0 + w \<le> 0xF4"
    using w1 by simp_all
  have b2: "(if 0xF0 + w = 0xF0 then 0x90 else 0x80) \<le> 0x80 + s"
    "0x80 + s \<le> (if 0xF0 + w = 0xF4 then 0x8F else 0xBF)"
    using w1 pw by auto
  have b3: "0x80 \<le> 0x80 + t" "0x80 + t \<le> 0xBF" using qp by simp_all
  have b4: "0x80 \<le> 0x80 + r" "0x80 + r \<le> 0xBF" using cq by simp_all
  have v: "(((0xF0 + w - 0xF0) * 64 + (0x80 + s - 0x80)) * 64 + (0x80 + t - 0x80)) * 64 +
           (0x80 + r - 0x80) = cp"
    using cq qp pw by simp
  have m: "(1::nat) < 3" "3 - 1 = (2::nat)" "(1::nat) < 2" "2 - 1 = (1::nat)" by simp_all
  show ?thesis
    unfolding e append_Cons append_Nil dec_lead4 [OF b1] dec_more [OF b2 m(1)] m(2)
      dec_more [OF b3 m(3)] m(4) dec_last [OF b4] v u by simp
qed

lemma unit_bytes_small: "\<forall>x \<in> set (utf8_unit c). x < 256"
proof -
  have "unat c div 64 \<le> 0xffff div 64" "unat c div 4096 \<le> 0xffff div 4096"
    using unit_le [of c] by (intro div_le_mono, simp)+
  moreover have "unat c < 0x800 \<longrightarrow> unat c div 64 \<le> 0x7ff div 64"
    by (auto intro: div_le_mono)
  ultimately show ?thesis
    by (auto simp: utf8_unit_def Let_def)
qed


lemma mod64_small: "(k :: nat) mod 64 < 128"
  by (rule order_less_trans [of _ 64]) simp_all

lemma pair_bytes_small:
  assumes "is_high h" "is_low l"
  shows "\<forall>x \<in> set (utf8_pair h l). x < 256"
proof -
  have "pair_code_point h l \<le> 0x10FFFF"
    using assms unfolding pair_code_point_def is_high_def is_low_def by linarith
  then have "pair_code_point h l div 262144 \<le> 0x10FFFF div 262144"
    by (rule div_le_mono)
  then show ?thesis
    by (simp add: utf8_pair_def Let_def mod64_small)
qed

lemma chunks_small: "\<forall>x \<in> set (concat (utf8_chunks str)). x < 256"
  by (induction str rule: utf8_chunks.induct)
     (use unit_bytes_small pair_bytes_small in auto)

lemma unat_of_small:
  "\<forall>x \<in> set xs. x < 256 \<Longrightarrow> map unat (map of_nat xs :: 8 word list) = xs"
  by (induction xs) (simp_all add: unat_of_nat)

lemma decode_chunks:
  "well_formed str \<Longrightarrow>
   utf8_dec 0 0 0x80 0xBF (concat (utf8_chunks str) @ rest) =
   str @ utf8_dec 0 0 0x80 0xBF rest"
proof (induction str rule: well_formed.induct)
  case 1
  then show ?case by simp
next
  case (2 c)
  then show ?case by (simp add: decode_unit)
next
  case (3 c d cs)
  show ?case
  proof (cases "is_high c \<and> is_low d")
    case True
    with 3 have "well_formed cs" by simp
    with 3(1) True have "utf8_dec 0 0 0x80 0xBF (concat (utf8_chunks cs) @ rest) =
        cs @ utf8_dec 0 0 0x80 0xBF rest" by blast
    with True show ?thesis by (simp add: decode_pair)
  next
    case False
    with 3 have w: "\<not> is_high c" "\<not> is_low c" "well_formed (d # cs)" by auto
    with 3(2) False have "utf8_dec 0 0 0x80 0xBF (concat (utf8_chunks (d # cs)) @ rest) =
        (d # cs) @ utf8_dec 0 0 0x80 0xBF rest" by blast
    with False w show ?thesis by (simp add: decode_unit)
  qed
qed

lemma utf8_round_trip: "well_formed str \<Longrightarrow> utf8_decode (utf8_encode str) = str"
  unfolding utf8_decode_def utf8_encode_def unat_of_small [OF chunks_small]
  using decode_chunks [of str "[]"] by simp

lemma well_formed_paired: "well_formed str \<Longrightarrow> trails_paired str"
  by (induction str rule: well_formed.induct) (auto split: if_splits)

section \<open>setEventId\<close>

lemma toString_slice:
  "fin \<le> length buf \<Longrightarrow> buffer_toString buf start fin = utf8_decode (take (fin - start) (drop start buf))"
  by (simp add: buffer_toString_def min_def)




section \<open>The examples as code units\<close>

lemma ascii_test: "ascii ''testEventType'' =
    [116, 101, 115, 116, 69, 118, 101, 110, 116, 84, 121, 112, 101]"
  by (simp add: ascii_def)

lemma ascii_src: "ascii ''abcd-12345yz'' = [97, 98, 99, 100, 45, 49, 50, 51, 52, 53, 121, 122]"
  by (simp add: ascii_def)

lemma sbl_test: "stringByteLength (ascii ''testEventType'') = 13"
  unfolding ascii_test
  by (simp add: stringByteLength_def sbl_loop.simps charCodeAt_def code_in_def)

lemma sbl_src: "stringByteLength (ascii ''abcd-12345yz'') = 12"
  unfolding ascii_src
  by (simp add: stringByteLength_def sbl_loop.simps charCodeAt_def code_in_def)


lemma wf_test: "well_formed (ascii ''testEventType'')"
  unfolding ascii_test by (simp add: is_high_def is_low_def)

lemma wf_src: "well_formed (ascii ''abcd-12345yz'')"
  unfolding ascii_src by (simp add: is_high_def is_low_def)



section \<open>The stages of the constructor\<close>

lemma length_new_Buffer: "length (new_Buffer P n) = n"
  by (simp add: new_Buffer_def)

lemma length_field_written:
  assumes "3 \<le> length buf"
  shows "length_field (write_bytes buf 1 (be_bytes 2 v)) = be_bytes 2 v"
  using slice_write_bytes [of 1 buf "be_bytes 2 v"] assms
  unfolding length_field_def by (simp add: length_be_bytes)

lemma nth0_write_bytes:
  "0 < off \<Longrightarrow> off \<le> length buf \<Longrightarrow> write_bytes buf off bs ! 0 = buf ! 0"
  by (simp add: write_bytes_def nth_append)

lemma nth0_buffer_write:
  "0 < off \<Longrightarrow> off \<le> length buf \<Longrightarrow> buffer_write buf str off ! 0 = buf ! 0"
  by (simp add: buffer_write_def nth0_write_bytes)

text \<open>The buffer after the eventType stage, for a string that passed the check.\<close>

lemma eventType_stage_Inr:
  assumes "eventType_stage P v = Inr b"
  obtains et where "v = JString et"
    and "length b = 47 + stringByteLength et"
    and "length b \<le> 0xFFFF"
    and "length_field b = be_bytes 2 (length b)"
    and "b ! 0 = 1"
    and "b = buffer_write
               (write_bytes ((new_Buffer P (47 + stringByteLength et))[0 := 1]) 1
                  (be_bytes 2 (47 + stringByteLength et))) et 47"
proof -
  from assms obtain et where v: "v = JString et"
    by (cases v) (auto simp: eventType_stage_def split: sum.splits bool.splits)
  let ?n = "47 + stringByteLength et"
  let ?b1 = "(new_Buffer P ?n)[0 := 1]"
  let ?b2 = "write_bytes ?b1 1 (be_bytes 2 ?n)"
  have l1: "length ?b1 = ?n" by (simp add: length_new_Buffer)
  from assms v have w: "writeUInt16BE ?b1 ?n 1 = Inr ?b2" and b: "b = buffer_write ?b2 et 47"
    and le: "?n \<le> 0xFFFF"
    by (auto simp: eventType_stage_def Let_def length_new_Buffer writeUInt16BE_def
        split: sum.splits bool.splits if_splits)
  have l2: "length ?b2 = ?n"
    using l1 by (simp add: length_write_bytes length_be_bytes)
  have lb: "length b = ?n"
    unfolding b using l2 by (simp add: length_buffer_write)
  have f2: "length_field ?b2 = be_bytes 2 ?n"
    using l1 by (intro length_field_written) simp
  have fb: "length_field b = be_bytes 2 (length b)"
    unfolding lb unfolding b using l2 f2 by (simp add: length_field_buffer_write)
  have z: "b ! 0 = 1"
    unfolding b using l1 l2 by (simp add: nth0_buffer_write nth0_write_bytes)
  show thesis
    using that [OF v lb _ fb z b] le lb by simp
qed




text \<open>A successful construction, stage by stage.\<close>

lemma Header_new_Inr:
  assumes "Header_new P G arguments = Inr h"
  obtains et es b1 where "argument arguments 0 = JString et"
    and "argument arguments 2 = JString es"
    and "stringByteLength es = 12"
    and "length arguments = 3 \<or> length arguments = 4"
    and "validateEnumValue (argument arguments 1) (enum_values G)"
    and "eventType_stage P (JString et) = Inr b1"
    and "h = \<lparr>FIXED_HEADER_SIZE = 47,
              buffer = isComposed_stage arguments (argument arguments 3)
                (buffer_write
                   (b1[0 := ucast ((ucast (b1 ! 0) :: 32 word) OR
                              push_bit 4 (ToInt32 (ToNumber P (argument arguments 1))))])
                   es 35)\<rparr>"
proof -
  from assms have n: "length arguments = 3 \<or> length arguments = 4"
    by (auto simp: Header_new_def Let_def split: if_splits)
  from assms n obtain b1 where s1: "eventType_stage P (argument arguments 0) = Inr b1"
    by (cases "eventType_stage P (argument arguments 0)") (auto simp: Header_new_def Let_def)
  let ?b2 = "b1[0 := ucast ((ucast (b1 ! 0) :: 32 word) OR
                        push_bit 4 (ToInt32 (ToNumber P (argument arguments 1))))]"
  from assms n s1 have val: "validateEnumValue (argument arguments 1) (enum_values G)"
    and s2: "granularity_stage P G (argument arguments 1) b1 = Inr ?b2"
    by (auto simp: Header_new_def Let_def granularity_stage_def split: if_splits)
  from assms n s1 s2 obtain b3 where s3: "eventSource_stage (argument arguments 2) ?b2 = Inr b3"
    and h: "h = \<lparr>FIXED_HEADER_SIZE = 47,
              buffer = isComposed_stage arguments (argument arguments 3) b3\<rparr>"
    by (cases "eventSource_stage (argument arguments 2) ?b2")
       (auto simp: Header_new_def Let_def)
  from s3 obtain es where es: "argument arguments 2 = JString es"
    "stringByteLength es = 12" "b3 = buffer_write ?b2 es 35"
    by (cases "argument arguments 2")
       (auto simp: eventSource_stage_def split: if_splits)
  from s1 obtain et where et: "argument arguments 0 = JString et"
    by (rule eventType_stage_Inr)
  show thesis
    using that [OF et es(1,2) n val] s1 h es(3) et by simp
qed


lemma getHeaderLength_field:
  assumes "3 \<le> length (buffer h)"
  shows "getHeaderLength h = Inr (be_value (length_field (buffer h)))"
  using assms by (simp add: getHeaderLength_def readUInt16BE_def length_field_def)


section \<open>The construction of the example header\<close>

lemma nan_not_gt: "dbl_gt dbl_NaN d = False"
  by (simp add: dbl_gt_def dbl_isNaN_def dbl_NaN_def dbl_exp_def dbl_frac_def)

lemma example_not_rejected:
  "eventType_rejected example_platform (JString (ascii ''testEventType'')) = Inr False"
  by (simp add: eventType_rejected_def example_platform_def example_StringToNumber_def
      ascii_def nan_not_gt)

lemma replicate_60: "replicate 60 (0 :: 8 word) =
  [0, 0, 0, 0, 0, 0, 0, 0, 0, 0, 0, 0, 0, 0, 0, 0, 0, 0, 0, 0,
   0, 0, 0, 0, 0, 0, 0, 0, 0, 0, 0, 0, 0, 0, 0, 0, 0, 0, 0, 0,
   0, 0, 0, 0, 0, 0, 0, 0, 0, 0, 0, 0, 0, 0, 0, 0, 0, 0, 0, 0]"
  by (simp add: numeral_eq_Suc)

lemma example_fresh: "new_Buffer example_platform 60 = replicate 60 0"
  by (simp add: new_Buffer_def example_platform_def map_replicate_const)

lemma be_bytes_2: "be_bytes 2 v = [of_nat (v div 256 mod 256), of_nat (v mod 256)]"
  by (simp add: numeral_2_eq_2)

lemma encode_test: "utf8_encode (ascii ''testEventType'') =
   [116, 101, 115, 116, 69, 118, 101, 110, 116, 84, 121, 112, 101]"
  unfolding ascii_test utf8_encode_def by (simp add: utf8_unit_def is_high_def)

lemma encode_src: "utf8_encode (ascii ''abcd-12345yz'') =
   [97, 98, 99, 100, 45, 49, 50, 51, 52, 53, 121, 122]"
  unfolding ascii_src utf8_encode_def by (simp add: utf8_unit_def is_high_def)

lemma eventType_stage_string:
  assumes "eventType_rejected P (JString et) = Inr False" "47 + stringByteLength et \<le> 0xFFFF"
  shows "eventType_stage P (JString et) =
     Inr (buffer_write
            (write_bytes ((new_Buffer P (47 + stringByteLength et))[0 := 1]) 1
               (be_bytes 2 (47 + stringByteLength et))) et 47)"
  using assms
  by (simp add: eventType_stage_def Let_def writeUInt16BE_def length_new_Buffer)

lemma example_stage1:
  "eventType_stage example_platform (JString (ascii ''testEventType'')) =
   Inr [1, 0, 60, 0, 0, 0, 0, 0, 0, 0, 0, 0, 0, 0, 0, 0, 0, 0, 0, 0, 0, 0, 0,
        0, 0, 0, 0, 0, 0, 0, 0, 0, 0, 0, 0, 0, 0, 0, 0, 0, 0, 0, 0, 0, 0, 0, 0,
        116, 101, 115, 116, 69, 118, 101, 110, 116, 84, 121, 112, 101]"
proof -
  let ?b1 = "(replicate 60 (0 :: 8 word))[0 := 1]"
  have n: "47 + stringByteLength (ascii ''testEventType'') = 60"
    by (simp add: sbl_test)
  have s: "eventType_stage example_platform (JString (ascii ''testEventType'')) =
     Inr (buffer_write
            (write_bytes ((new_Buffer example_platform 60)[0 := 1]) 1 (be_bytes 2 60))
            (ascii ''testEventType'') 47)"
    using eventType_stage_string [OF example_not_rejected] unfolding n by simp
  have b2: "write_bytes ?b1 1 (be_bytes 2 60) =
      [1, 0, 60, 0, 0, 0, 0, 0, 0, 0, 0, 0, 0, 0, 0, 0, 0, 0, 0, 0, 0, 0, 0,
       0, 0, 0, 0, 0, 0, 0, 0, 0, 0, 0, 0, 0, 0, 0, 0, 0, 0, 0, 0, 0, 0, 0, 0,
       0, 0, 0, 0, 0, 0, 0, 0, 0, 0, 0, 0, 0]"
    unfolding replicate_60 be_bytes_2 write_bytes_def by simp
  have f: "buffer_write (write_bytes ?b1 1 (be_bytes 2 60)) (ascii ''testEventType'') 47 =
      write_bytes (write_bytes ?b1 1 (be_bytes 2 60)) 47 (utf8_encode (ascii ''testEventType''))"
  proof (rule buffer_write_fits)
    have "byteLength_spec (ascii ''testEventType'') = 13"
      using sbl_spec [OF well_formed_paired [OF wf_test]] sbl_test by simp
    then show "byteLength_spec (ascii ''testEventType'')
        \<le> length (write_bytes ?b1 1 (be_bytes 2 60)) - 47"
      unfolding b2 by simp
  qed
  show ?thesis
    apply (simp only: s example_fresh)
    apply (simp only: f)
    apply (simp only: b2 encode_test)
    apply (simp add: write_bytes_def)
    done
qed

lemma dbl_2_valid: "validateEnumValue (JNumber dbl_2) (enum_values example_granularity)"
  by (simp add: validateEnumValue_def example_granularity_def dbl_2_def dbl_isNaN_def
      dbl_exp_def dbl_frac_def)

lemma dbl_2_int32: "ToInt32 dbl_2 = 2"
  by (simp add: ToInt32_def dbl_2_def dbl_exp_def dbl_frac_def dbl_mag_def dbl_sign_def)

lemma example_header_constructed:
  "Header_new example_platform example_granularity example_arguments = Inr example_header"
proof -
  let ?b1 = "[1, 0, 60, 0, 0, 0, 0, 0, 0, 0, 0, 0, 0, 0, 0, 0, 0, 0, 0, 0, 0, 0, 0,
        0, 0, 0, 0, 0, 0, 0, 0, 0, 0, 0, 0, 0, 0, 0, 0, 0, 0, 0, 0, 0, 0, 0, 0,
        116, 101, 115, 116, 69, 118, 101, 110, 116, 84, 121, 112, 101] :: bytes"
  let ?b2 = "[33, 0, 60, 0, 0, 0, 0, 0, 0, 0, 0, 0, 0, 0, 0, 0, 0, 0, 0, 0, 0, 0, 0,
        0, 0, 0, 0, 0, 0, 0, 0, 0, 0, 0, 0, 0, 0, 0, 0, 0, 0, 0, 0, 0, 0, 0, 0,
        116, 101, 115, 116, 69, 118, 101, 110, 116, 84, 121, 112, 101] :: bytes"
  have g: "granularity_stage example_platform example_granularity (JNumber dbl_2) ?b1 = Inr ?b2"
    by (simp add: granularity_stage_def dbl_2_valid dbl_2_int32)
  have f: "buffer_write ?b2 (ascii ''abcd-12345yz'') 35 =
      write_bytes ?b2 35 (utf8_encode (ascii ''abcd-12345yz''))"
  proof (rule buffer_write_fits)
    have "byteLength_spec (ascii ''abcd-12345yz'') = 12"
      using sbl_spec [OF well_formed_paired [OF wf_src]] sbl_src by simp
    then show "byteLength_spec (ascii ''abcd-12345yz'') \<le> length ?b2 - 35"
      by simp
  qed
  have e: "eventSource_stage (JString (ascii ''abcd-12345yz'')) ?b2 =
      Inr (buffer example_header)"
    apply (simp only: eventSource_stage_def jsval.case sbl_src)
    apply (simp only: f encode_src)
    apply (simp add: write_bytes_def example_header_def)
    done
  show ?thesis
    unfolding Header_new_def example_arguments_def
    by (simp add: argument_def example_stage1 g e isComposed_stage_def example_header_def)
qed



section \<open>The round trip of a three-argument construction\<close>

lemma ToInt32_int:
  assumes "dbl_int d = Some k"
  shows "ToInt32 d = word_of_int k"
proof -
  from assms have e: "dbl_exp d \<noteq> 2047" and m: "dbl_mag d mod 2 ^ 1075 = 0"
    by (auto simp: dbl_int_def split: if_splits)
  have s: "dbl_scaled d = k * 2 ^ 1075"
    by (rule dbl_int_scaled(1) [OF assms])
  from m have "dbl_mag d = dbl_mag d div 2 ^ 1075 * 2 ^ 1075"
    by (simp only: dvd_eq_mod_eq_0 [symmetric] dvd_div_mult_self)
  then have q: "int (dbl_mag d) = int (dbl_mag d div 2 ^ 1075) * 2 ^ 1075"
    by (metis of_nat_mult of_nat_numeral of_nat_power)
  show ?thesis
  proof (cases "dbl_sign d")
    case True
    then have "- int (dbl_mag d) = k * 2 ^ 1075" using s by (simp add: dbl_scaled_def)
    with q have "(- int (dbl_mag d div 2 ^ 1075)) * 2 ^ 1075 = k * (2::int) ^ 1075"
      by (simp only: mult_minus_left)
    then have "- int (dbl_mag d div 2 ^ 1075) = k"
      by (simp only: mult_cancel_right) simp
    then show ?thesis using True e by (simp only: ToInt32_def if_True if_False)
  next
    case False
    then have "int (dbl_mag d) = k * 2 ^ 1075" using s by (simp add: dbl_scaled_def)
    with q have "int (dbl_mag d div 2 ^ 1075) * 2 ^ 1075 = k * (2::int) ^ 1075"
      by simp
    then have "int (dbl_mag d div 2 ^ 1075) = k"
      by (simp only: mult_cancel_right) simp
    then show ?thesis using False e by (simp only: ToInt32_def if_True if_False)
  qed
qed

lemma granularity_byte:
  assumes "0 \<le> k" "k \<le> 15"
  shows "unat ((ucast ((ucast (1 :: 8 word) :: 32 word) OR push_bit 4 (word_of_int k)) :: 8 word)
               AND 7) = 1 \<and>
         (ucast ((ucast (1 :: 8 word) :: 32 word) OR push_bit 4 (word_of_int k)) :: 8 word)
               AND 8 = 0 \<and>
         unat (drop_bit 4
           (ucast ((ucast (1 :: 8 word) :: 32 word) OR push_bit 4 (word_of_int k)) :: 8 word)) =
         nat k"
proof -
  from assms have "k \<in> {0, 1, 2, 3, 4, 5, 6, 7, 8, 9, 10, 11, 12, 13, 14, 15}"
    by simp arith
  then show ?thesis
    by (elim insertE emptyE) simp_all
qed


lemma drop_written_tail:
  assumes "length buf = off + length bs"
  shows "drop off (write_bytes buf off bs) = bs"
  using assms by (simp add: write_bytes_def)

lemma nth0_update: "buf \<noteq> [] \<Longrightarrow> byte0 (buf[0 := x]) = x"
  by (cases buf) (simp_all add: byte0_def)

lemma byte0_nth: "buf \<noteq> [] \<Longrightarrow> byte0 buf = buf ! 0"
  by (cases buf) (simp_all add: byte0_def)

text \<open>
  Claim C3, as amended. After a successful construction from three arguments, an
  eventType and an eventSource that are well-formed UTF-16 and a granularity code that is
  an integer from 0 to 15, the accessors return the inputs: protocol version 1, not
  composed, the code, the eventType and the eventSource.
\<close>

theorem three_argument_round_trip:
  assumes "Header_new P G [JString eventType, JNumber code, JString eventSource] = Inr h"
    and "dbl_int code = Some k" and "0 \<le> k" and "k \<le> 15"
    and "well_formed eventType" and "well_formed eventSource"
  shows "getProtocolVersion h = 1 \<and>
         \<not> isComposed h \<and>
         getTemporalGranularity h = nat k \<and>
         getEventType h = Inr eventType \<and>
         getEventSource h = eventSource"
proof -
  let ?args = "[JString eventType, JNumber code, JString eventSource]"
  from assms(1) obtain et es b1 where a0: "argument ?args 0 = JString et"
    and a2: "argument ?args 2 = JString es" and n12: "stringByteLength es = 12"
    and s1: "eventType_stage P (JString et) = Inr b1"
    and h: "h = \<lparr>FIXED_HEADER_SIZE = 47,
              buffer = isComposed_stage ?args (argument ?args 3)
                (buffer_write
                   (b1[0 := ucast ((ucast (b1 ! 0) :: 32 word) OR
                              push_bit 4 (ToInt32 (ToNumber P (argument ?args 1))))])
                   es 35)\<rparr>"
    by (rule Header_new_Inr)
  have et: "et = eventType" and es: "es = eventSource"
    using a0 a2 by (simp_all add: argument_def)
  from s1 obtain et' where "JString et = JString et'"
    and l1': "length b1 = 47 + stringByteLength et'" and le: "length b1 \<le> 0xFFFF"
    and f1: "length_field b1 = be_bytes 2 (length b1)" and z1: "b1 ! 0 = 1"
    and b1': "b1 = buffer_write
               (write_bytes ((new_Buffer P (47 + stringByteLength et'))[0 := 1]) 1
                  (be_bytes 2 (47 + stringByteLength et'))) et' 47"
    by (rule eventType_stage_Inr)
  then have l1: "length b1 = 47 + stringByteLength eventType"
    and b1: "b1 = buffer_write
               (write_bytes ((new_Buffer P (47 + stringByteLength eventType))[0 := 1]) 1
                  (be_bytes 2 (47 + stringByteLength eventType))) eventType 47"
    using et by simp_all
  let ?b0 = "write_bytes ((new_Buffer P (47 + stringByteLength eventType))[0 := 1]) 1
                  (be_bytes 2 (47 + stringByteLength eventType))"
  let ?x = "ucast ((ucast (1 :: 8 word) :: 32 word) OR push_bit 4 (word_of_int k)) :: 8 word"
  let ?b2 = "b1[0 := ?x]"
  let ?b3 = "write_bytes ?b2 35 (utf8_encode eventSource)"
  have nt: "byteLength_spec eventType = stringByteLength eventType"
    using sbl_spec [OF well_formed_paired [OF assms(5)]] by simp
  have ns: "byteLength_spec eventSource = 12"
    using sbl_spec [OF well_formed_paired [OF assms(6)]] n12 es by simp
  have l0: "length ?b0 = 47 + stringByteLength eventType"
    by (simp add: length_write_bytes length_be_bytes length_new_Buffer)
  have w1: "b1 = write_bytes ?b0 47 (utf8_encode eventType)"
    unfolding b1 using l0 nt by (intro buffer_write_fits) simp
  have d1: "drop 47 b1 = utf8_encode eventType"
    unfolding w1 using l0 nt by (intro drop_written_tail) (simp add: length_utf8_encode)
  have l2: "length ?b2 = 47 + stringByteLength eventType"
    using l1 by simp
  have w3: "buffer_write ?b2 eventSource 35 = ?b3"
    using l2 ns by (intro buffer_write_fits) simp
  have hb: "buffer h = ?b3"
    unfolding h using w3 es z1 ToInt32_int [OF assms(2)]
    by (simp add: argument_def isComposed_stage_def)
  have l3: "length ?b3 = 47 + stringByteLength eventType"
    using l2 ns by (simp add: length_write_bytes length_utf8_encode)
  have ne: "?b3 \<noteq> []" using l3 by auto
  have "?b3 ! 0 = ?b2 ! 0"
    using l2 by (intro nth0_write_bytes) simp_all
  moreover have "?b2 ! 0 = ?x" using l1 by simp
  ultimately have x: "byte0 (buffer h) = ?x"
    unfolding hb using byte0_nth [OF ne] by simp
  have d3: "drop 47 ?b3 = drop 47 b1"
  proof -
    have "drop 47 ?b3 = drop 47 ?b2"
      using l2 ns by (intro drop_write_bytes) (simp_all add: length_utf8_encode)
    also have "\<dots> = drop 47 b1" by (simp add: drop_update_cancel)
    finally show ?thesis .
  qed
  have s3: "take 12 (drop 35 ?b3) = utf8_encode eventSource"
    using slice_write_bytes [of 35 ?b2 "utf8_encode eventSource"] l2 ns
    by (simp add: length_utf8_encode)
  have f3: "length_field ?b3 = be_bytes 2 (length b1)"
    using l2 f1 by (simp add: length_field_write_bytes length_field_update0)
  have "length b1 mod 256 ^ 2 = length b1" using le by simp
  then have "be_value (length_field ?b3) = length b1"
    unfolding f3 be_value_bytes .
  then have gl: "getHeaderLength h = Inr (length b1)"
    using getHeaderLength_field [of h] hb l3 by simp
  have fx: "FIXED_HEADER_SIZE h = 47" unfolding h by simp
  have gt: "getEventType h = Inr eventType"
    unfolding getEventType_def gl fx hb
    using l1 l3 d3 d1 assms(5) nt
    by (simp add: buffer_toString_def utf8_round_trip length_utf8_encode)
  have gs: "getEventSource h = eventSource"
    unfolding getEventSource_def hb
    using l3 s3 assms(6) by (simp add: toString_slice utf8_round_trip)
  show ?thesis
    using granularity_byte [OF assms(3,4)] x gt gs
    by (simp add: getProtocolVersion_def isComposed_def getTemporalGranularity_def)
qed


lemma int_dbl_2: "dbl_int dbl_2 = Some 2"
  by (simp add: dbl_int_def dbl_scaled_def dbl_mag_def dbl_sign_def dbl_exp_def dbl_frac_def
      dbl_2_def)

theorem three_argument_round_trip_witness:
  "Header_new example_platform example_granularity
     [JString (ascii ''testEventType''), JNumber dbl_2, JString (ascii ''abcd-12345yz'')] =
     Inr example_header \<and>
   dbl_int dbl_2 = Some 2 \<and>
   well_formed (ascii ''testEventType'') \<and> well_formed (ascii ''abcd-12345yz'') \<and>
   getProtocolVersion example_header = 1 \<and>
   \<not> isComposed example_header \<and>
   getTemporalGranularity example_header = 2 \<and>
   getEventType example_header = Inr (ascii ''testEventType'') \<and>
   getEventSource example_header = ascii ''abcd-12345yz''"
proof -
  have c: "Header_new example_platform example_granularity
     [JString (ascii ''testEventType''), JNumber dbl_2, JString (ascii ''abcd-12345yz'')] =
     Inr example_header"
    using example_header_constructed by (simp only: example_arguments_def)
  show ?thesis
    using c int_dbl_2 wf_test wf_src
      three_argument_round_trip [OF c int_dbl_2 _ _ wf_test wf_src]
    by simp
qed

lemma Header_new_three:
  assumes "eventType_stage P (JString et) = Inr b1"
    and "validateEnumValue (JNumber g) (enum_values G)"
    and "stringByteLength es = 12"
  shows "Header_new P G [JString et, JNumber g, JString es] =
     Inr \<lparr>FIXED_HEADER_SIZE = 47,
          buffer = buffer_write
            (b1[0 := ucast ((ucast (b1 ! 0) :: 32 word) OR push_bit 4 (ToInt32 g))]) es 35\<rparr>"
  using assms
  by (simp add: Header_new_def Let_def argument_def granularity_stage_def
      eventSource_stage_def isComposed_stage_def)

lemma replicate_51: "replicate 51 (0 :: 8 word) =
  [0, 0, 0, 0, 0, 0, 0, 0, 0, 0, 0, 0, 0, 0, 0, 0, 0, 0, 0, 0,
   0, 0, 0, 0, 0, 0, 0, 0, 0, 0, 0, 0, 0, 0, 0, 0, 0, 0, 0, 0,
   0, 0, 0, 0, 0, 0, 0, 0, 0, 0, 0]"
  by (simp add: numeral_eq_Suc)

text \<open>
  Claim C3 as stated fails for an eventType with an unpaired trail surrogate: the buffer
  is sized by \<open>stringByteLength\<close>, which counts 4 bytes for \<open>[0xE9, 0xDC00]\<close>, the
  encoding needs 5, and only the first code point is written. \<open>getEventType\<close> returns
  that code point followed by the two bytes the write did not reach.
\<close>

theorem unpaired_eventType_not_returned:
  "\<not> isl (Header_new example_platform example_granularity
            [JString [0xE9, 0xDC00], JNumber dbl_2, JString (ascii ''abcd-12345yz'')]) \<and>
   getEventType (projr (Header_new example_platform example_granularity
            [JString [0xE9, 0xDC00], JNumber dbl_2, JString (ascii ''abcd-12345yz'')])) =
     Inr [0xE9, 0, 0]"
proof -
  let ?et = "[0xE9, 0xDC00] :: jsstring"
  have n: "stringByteLength ?et = 4"
    by (simp add: stringByteLength_def sbl_loop.simps charCodeAt_def code_in_def)
  have r: "eventType_rejected example_platform (JString ?et) = Inr False"
    by (simp add: eventType_rejected_def example_platform_def example_StringToNumber_def
        ascii_def nan_not_gt)
  have f: "new_Buffer example_platform 51 = replicate 51 0"
    by (simp add: new_Buffer_def example_platform_def map_replicate_const)
  have b0: "write_bytes ((replicate 51 (0 :: 8 word))[0 := 1]) 1 (be_bytes 2 51) =
      [1, 0, 51, 0, 0, 0, 0, 0, 0, 0, 0, 0, 0, 0, 0, 0, 0, 0, 0, 0, 0, 0, 0,
       0, 0, 0, 0, 0, 0, 0, 0, 0, 0, 0, 0, 0, 0, 0, 0, 0, 0, 0, 0, 0, 0, 0, 0,
       0, 0, 0, 0]"
    unfolding replicate_51 be_bytes_2 write_bytes_def by simp
  have c: "utf8_chunks ?et = [[0xC3, 0xA9], [0xEF, 0xBF, 0xBD]]"
    by (simp add: utf8_unit_def is_high_def is_low_def)
  have s1: "eventType_stage example_platform (JString ?et) =
      Inr [1, 0, 51, 0, 0, 0, 0, 0, 0, 0, 0, 0, 0, 0, 0, 0, 0, 0, 0, 0, 0, 0, 0,
           0, 0, 0, 0, 0, 0, 0, 0, 0, 0, 0, 0, 0, 0, 0, 0, 0, 0, 0, 0, 0, 0, 0, 0,
           0xC3, 0xA9, 0, 0]"
  proof -
    have n51: "47 + stringByteLength ?et = 51" using n by simp
    have "eventType_stage example_platform (JString ?et) =
      Inr (buffer_write
             (write_bytes ((new_Buffer example_platform 51)[0 := 1]) 1 (be_bytes 2 51))
             ?et 47)"
      using eventType_stage_string [OF r] unfolding n51 by simp
    then show ?thesis
      apply (simp only: f b0 buffer_write_def c)
      apply (simp add: write_bytes_def)
      done
  qed
  have e: "buffer_write
      [33, 0, 51, 0, 0, 0, 0, 0, 0, 0, 0, 0, 0, 0, 0, 0, 0, 0, 0, 0, 0, 0, 0,
       0, 0, 0, 0, 0, 0, 0, 0, 0, 0, 0, 0, 0, 0, 0, 0, 0, 0, 0, 0, 0, 0, 0, 0,
       0xC3, 0xA9, 0, 0] (ascii ''abcd-12345yz'') 35 =
      [33, 0, 51, 0, 0, 0, 0, 0, 0, 0, 0, 0, 0, 0, 0, 0, 0, 0, 0, 0, 0, 0, 0,
       0, 0, 0, 0, 0, 0, 0, 0, 0, 0, 0, 0,
       97, 98, 99, 100, 45, 49, 50, 51, 52, 53, 121, 122, 0xC3, 0xA9, 0, 0]"
  proof -
    have "byteLength_spec (ascii ''abcd-12345yz'') = 12"
      using sbl_spec [OF well_formed_paired [OF wf_src]] sbl_src by simp
    then show ?thesis
      by (subst buffer_write_fits) (simp_all add: encode_src write_bytes_def)
  qed
  have h: "Header_new example_platform example_granularity
            [JString ?et, JNumber dbl_2, JString (ascii ''abcd-12345yz'')] =
      Inr \<lparr>FIXED_HEADER_SIZE = 47,
           buffer = [33, 0, 51, 0, 0, 0, 0, 0, 0, 0, 0, 0, 0, 0, 0, 0, 0, 0, 0, 0, 0, 0, 0,
             0, 0, 0, 0, 0, 0, 0, 0, 0, 0, 0, 0,
             97, 98, 99, 100, 45, 49, 50, 51, 52, 53, 121, 122, 0xC3, 0xA9, 0, 0]\<rparr>"
    apply (simp only: Header_new_three [OF s1 dbl_2_valid sbl_src])
    apply (simp add: dbl_2_int32 e)
    done
  have d: "utf8_decode [0xC3, 0xA9, 0, 0] = [0xE9, 0, 0]"
  proof -
    have m: "map unat [0xC3, 0xA9, 0, 0 :: 8 word] = [0xC3, 0xA9, 0, 0]" by simp
    have d1: "utf8_dec 0 0 0x80 0xBF [0xC3, 0xA9, 0, 0] =
        utf8_dec (0xC3 - 0xC0) 1 0x80 0xBF [0xA9, 0, 0]"
      by (rule dec_lead2) simp_all
    have d2: "utf8_dec (0xC3 - 0xC0) 1 0x80 0xBF [0xA9, 0, 0] =
        units_of_code_point ((0xC3 - 0xC0) * 64 + (0xA9 - 0x80)) @
        utf8_dec 0 0 0x80 0xBF [0, 0]"
      by (rule dec_last) simp_all
    have d3: "utf8_dec 0 0 0x80 0xBF [0, 0] = [0, 0]"
      by (simp add: dec1)
    show ?thesis
      unfolding utf8_decode_def m d1 d2 d3 by (simp add: units_of_code_point_def)
  qed
  show ?thesis
    unfolding h
    by (simp add: getEventType_def getHeaderLength_def readUInt16BE_def be_value_def
        buffer_toString_def d)
qed

section \<open>The eventType check of the constructor\<close>

lemma sbl_empty: "stringByteLength [] = 0"
  by (simp add: stringByteLength_def sbl_loop.simps)

lemma empty_not_rejected: "eventType_rejected example_platform (JString []) = Inr False"
  by (simp add: eventType_rejected_def example_platform_def example_StringToNumber_def
      dbl_gt_def dbl_65488_def dbl_isNaN_def dbl_scaled_def dbl_mag_def dbl_sign_def
      dbl_exp_def dbl_frac_def)

lemma digits_rejected:
  "eventType_rejected example_platform (JString (ascii ''70000'')) = Inr True"
proof -
  have "ascii ''70000'' \<noteq> []" by (simp add: ascii_def)
  then have "example_StringToNumber (ascii ''70000'') = 0x40F1170000000000"
    by (simp add: example_StringToNumber_def)
  moreover have "dbl_gt 0x40F1170000000000 dbl_65488"
    by (simp add: dbl_gt_def dbl_65488_def dbl_isNaN_def dbl_scaled_def dbl_mag_def
        dbl_sign_def dbl_exp_def dbl_frac_def)
  ultimately show ?thesis
    by (simp add: eventType_rejected_def example_platform_def)
qed

lemma sbl_digits: "stringByteLength (ascii ''70000'') = 5"
  by (simp add: ascii_def stringByteLength_def sbl_loop.simps charCodeAt_def code_in_def)

text \<open>
  Claim C2 describes what the documentation of the constructor asks for (a string of
  length greater than 0 whose byte length is at most 65488); the code does something
  else. The empty string passes the check of line 73 and a header of 47 bytes is
  constructed. The string \<open>70000\<close>, five bytes long, is rejected with the module's
  Error, because the check compares the string itself, converted to a number, with 65488.
\<close>

theorem eventType_check_on_strings:
  "\<not> isl (Header_new example_platform example_granularity
            [JString [], JNumber dbl_2, JString (ascii ''abcd-12345yz'')]) \<and>
   length (buffer (projr (Header_new example_platform example_granularity
            [JString [], JNumber dbl_2, JString (ascii ''abcd-12345yz'')]))) = 47 \<and>
   stringByteLength (ascii ''70000'') = 5 \<and>
   Header_new example_platform example_granularity
     [JString (ascii ''70000''), JNumber dbl_2, JString (ascii ''abcd-12345yz'')] = Inl Error"
proof -
  let ?b0 = "write_bytes ((new_Buffer example_platform (47 + stringByteLength []))[0 := 1]) 1
               (be_bytes 2 (47 + stringByteLength []))"
  have s1: "eventType_stage example_platform (JString []) = Inr (buffer_write ?b0 [] 47)"
    by (rule eventType_stage_string [OF empty_not_rejected]) (simp add: sbl_empty)
  have l0: "length ?b0 = 47"
    by (simp add: sbl_empty length_write_bytes length_be_bytes length_new_Buffer)
  have l1: "length (buffer_write ?b0 [] 47) = 47"
    using l0 by (simp add: length_buffer_write)
  have a: "Header_new example_platform example_granularity
            [JString [], JNumber dbl_2, JString (ascii ''abcd-12345yz'')] =
      Inr \<lparr>FIXED_HEADER_SIZE = 47,
           buffer = buffer_write
             ((buffer_write ?b0 [] 47)
                [0 := ucast ((ucast (buffer_write ?b0 [] 47 ! 0) :: 32 word) OR
                             push_bit 4 (ToInt32 dbl_2))])
             (ascii ''abcd-12345yz'') 35\<rparr>"
    by (rule Header_new_three [OF s1 dbl_2_valid sbl_src])
  have b: "Header_new example_platform example_granularity
     [JString (ascii ''70000''), JNumber dbl_2, JString (ascii ''abcd-12345yz'')] = Inl Error"
    by (simp add: Header_new_def Let_def argument_def eventType_stage_def digits_rejected)
  show ?thesis
    unfolding a using l1 b sbl_digits by (simp add: length_buffer_write)
qed

section \<open>Calling the constructor without new\<close>

lemma Header_new_four_true:
  assumes "eventType_stage P (JString et) = Inr b1"
    and "validateEnumValue (JNumber g) (enum_values G)"
    and "stringByteLength es = 12"
  shows "\<not> isl (Header_new P G [JString et, JNumber g, JString es, JBoolean c])"
  using assms
  by (simp add: Header_new_def Let_def argument_def granularity_stage_def
      eventSource_stage_def)

text \<open>
  Claim C10 is what the comment of line 45 promises (the call without \<open>new\<close> is
  silently corrected), and the code misses it when the call does not have three or four
  arguments: the inner \<open>new Header\<close> of line 47 always passes exactly four. With five
  arguments \<open>new Header\<close> throws the Error of the argument count, and the plain call
  drops the fifth argument and returns a header.
\<close>

theorem plain_call_with_five_arguments:
  "Header_new example_platform example_granularity
     [JString (ascii ''testEventType''), JNumber dbl_2, JString (ascii ''abcd-12345yz''),
      JBoolean True, JNull] = Inl Error \<and>
   \<not> isl (Header_call example_platform example_granularity
     [JString (ascii ''testEventType''), JNumber dbl_2, JString (ascii ''abcd-12345yz''),
      JBoolean True, JNull])"
proof -
  have a: "Header_new example_platform example_granularity
     [JString (ascii ''testEventType''), JNumber dbl_2, JString (ascii ''abcd-12345yz''),
      JBoolean True, JNull] = Inl Error"
    by (simp add: Header_new_def)
  have b: "Header_call example_platform example_granularity
     [JString (ascii ''testEventType''), JNumber dbl_2, JString (ascii ''abcd-12345yz''),
      JBoolean True, JNull] =
     Header_new example_platform example_granularity
     [JString (ascii ''testEventType''), JNumber dbl_2, JString (ascii ''abcd-12345yz''),
      JBoolean True]"
    by (simp add: Header_call_def argument_def)
  show ?thesis
    unfolding b using a Header_new_four_true [OF example_stage1 dbl_2_valid sbl_src, of True]
    by simp
qed

section \<open>The name of the granularity\<close>




end
